theory Spec2Isabelle
  imports Main
begin

section \<open>The profile coder of Gaphor: data model\<close>

text \<open>
  The theory embeds \<^verbatim>\<open>src/gaphor/codegen/profile_coder.py\<close>. Model elements are Python
  objects compared by identity; an element is represented by its identity (a number) and a
  heap gives the fields of each element.
\<close>

type_synonym cid = nat

text \<open>
  Modelled from the spec: the declarations of \<^verbatim>\<open>UML.Class\<close>, \<^verbatim>\<open>UML.Property\<close> and
  \<^verbatim>\<open>UML.Association\<close> are not part of the sources at hand, so the records hold exactly the
  fields that the coder reads.
  \<^item> \<open>a_name\<close> and \<open>a_typeValue\<close> are optional strings (the coder tests both for \<^verbatim>\<open>None\<close>).
  \<^item> \<open>a_association\<close> is \<open>None\<close> for an attribute that is not association-typed
    (\<^verbatim>\<open>a.association\<close> is falsy) and holds the association otherwise.
  \<^item> \<open>ownedEnd\<close> is \<open>None\<close> for an association without an owned end, as a plain association
    has none: \<^verbatim>\<open>a.association.ownedEnd\<close> is \<^verbatim>\<open>None\<close> and reading \<^verbatim>\<open>class_\<close> from it raises
    \<^verbatim>\<open>AttributeError\<close>. It is \<open>Some c\<close> for an association with an owned end, and \<open>c\<close> is
    \<^verbatim>\<open>a.association.ownedEnd.class_\<close>, the class at the opposite end (a class, as the type
    \<^verbatim>\<open>Dict[UML.Class, List[UML.Class]]\<close> that the source gives to the mapping says).
  \<^item> \<open>c_ownedOperation\<close> holds, for each owned operation \<^verbatim>\<open>o\<close>, the text that \<^verbatim>\<open>f"{o}"\<close> gives.
\<close>

record association =
  ownedEnd :: "cid option"

record property =
  a_name :: "string option"
  a_typeValue :: "string option"
  a_association :: "association option"

record uml_class =
  c_name :: "string option"
  c_general :: "cid list"
  c_attribute :: "property list"
  c_ownedOperation :: "string list"

type_synonym heap = "cid \<Rightarrow> uml_class"

text \<open>
  A loaded model: the heap and the list that
  \<^verbatim>\<open>element_factory.lselect(lambda e: e.isKindOf(UML.Class))\<close> returns.
\<close>

record model =
  m_heap :: heap
  m_classes :: "cid list"

datatype py_error =
  ModelLoadFailure | OSError | TypeError | IndexError | KeyError | AttributeError

text \<open>A Python \<^verbatim>\<open>dict\<close> keeps its keys in insertion order; storing under a key that is
  present replaces the value and keeps the position.\<close>

type_synonym ('k, 'v) dict = "('k \<times> 'v) list"

fun dict_set :: "('k, 'v) dict \<Rightarrow> 'k \<Rightarrow> 'v \<Rightarrow> ('k, 'v) dict" where
  "dict_set [] k v = [(k, v)]"
| "dict_set ((k', v') # d) k v = (if k' = k then (k, v) # d else (k', v') # dict_set d k v)"

fun dict_get :: "('k, 'v) dict \<Rightarrow> 'k \<Rightarrow> 'v option" where
  "dict_get [] k = None"
| "dict_get ((k', v') # d) k = (if k' = k then Some v' else dict_get d k)"

type_synonym trees = "(cid, cid list) dict"

subsection \<open>Strings\<close>

text \<open>
  \<^verbatim>\<open>str.lower\<close> on the letters A to Z; every other character is kept. (Python also lowers
  letters outside ASCII; none of them becomes a letter of the names that the coder compares
  with, so the comparisons come out the same.)
\<close>

definition lower_char :: "char \<Rightarrow> char" where
  "lower_char c =
     (let n = (of_char c :: nat) in if 65 \<le> n \<and> n \<le> 90 then char_of (n + 32) else c)"

definition lower :: "string \<Rightarrow> string" where
  "lower s = map lower_char s"

definition endswith :: "string \<Rightarrow> string \<Rightarrow> bool" where
  "endswith s suffix =
     (length suffix \<le> length s \<and> drop (length s - length suffix) s = suffix)"

text \<open>\<^verbatim>\<open>', '.join(xs)\<close>\<close>

fun join :: "string \<Rightarrow> string list \<Rightarrow> string" where
  "join sep [] = []"
| "join sep [x] = x"
| "join sep (x # y # xs) = x @ sep @ join sep (y # xs)"

text \<open>What an f-string prints for an optional string: \<^verbatim>\<open>None\<close> is printed as the word.\<close>

fun py_str :: "string option \<Rightarrow> string" where
  "py_str None = ''None''"
| "py_str (Some s) = s"

text \<open>Truth value of an optional string: \<^verbatim>\<open>None\<close> and the empty string are falsy.\<close>

fun truthy :: "string option \<Rightarrow> bool" where
  "truthy None = False"
| "truthy (Some s) = (s \<noteq> [])"

subsection \<open>The output file\<close>

text \<open>
  The output file is the sequence of the \<^verbatim>\<open>write\<close> calls made on it. Each constructor
  stands for one \<^verbatim>\<open>write\<close> statement of the source and carries the values its format
  string interpolates; \<open>render\<close> gives the text written.
\<close>

datatype write_call =
    WHeader
  | WImport "string option"
  | WClassBases "string option" "string list"
  | WClass "string option"
  | WAttribute "string option" "string option"
  | WRelationOne "string option" "string option"
  | WOperation string
  | WPass

type_synonym textio = "write_call list"

definition header :: string where
  "header = concat (map (\<lambda>l. l @ ''\<newline>'')
     [''# This file is generated by profile_coder.py. DO NOT EDIT!'',
      '''',
      ''from __future__ import annotations'',
      '''',
      ''import uuid'',
      ''from typing import TYPE_CHECKING, Callable, List, Optional'',
      '''',
      ''from gaphor.core.modeling.collection import collection'',
      ''from gaphor.core.modeling.element import Element'',
      ''from gaphor.core.modeling.properties import ('',
      ''    association,'',
      ''    attribute,'',
      ''    derived,'',
      ''    derivedunion,'',
      ''    enumeration,'',
      ''    redefine,'',
      ''    relation_many,'',
      ''    relation_one,'',
      '')''])"

fun render :: "write_call \<Rightarrow> string" where
  "render WHeader = header"
| "render (WImport n) = ''from gaphor.UML import '' @ py_str n @ ''\<newline>\<newline>''"
| "render (WClassBases n bs) = ''class '' @ py_str n @ ''('' @ join '', '' bs @ ''):\<newline>''"
| "render (WClass n) = ''class '' @ py_str n @ '':\<newline>''"
| "render (WAttribute n t) = ''    '' @ py_str n @ '': attribute['' @ py_str t @ '']\<newline>''"
| "render (WRelationOne n t) =
     ''    '' @ py_str n @ '': relation_one['' @ py_str t @ '']\<newline>''"
| "render (WOperation ob) = ''    '' @ ob @ '': operation\<newline>''"
| "render WPass = ''    pass\<newline>\<newline>''"

definition file_text :: "textio \<Rightarrow> string" where
  "file_text fl = concat (map render fl)"

section \<open>The functions of the coder\<close>

definition type_converter :: "property \<Rightarrow> string option" where
  "type_converter association =
     (case a_typeValue association of
        None \<Rightarrow> None
      | Some type_value \<Rightarrow>
          if lower type_value = ''boolean'' then Some ''int''
          else if lower type_value \<in> set [''integer'', ''unlimitednatural''] then Some ''int''
          else if lower type_value = ''string'' then Some ''str''
          else if endswith type_value ''Kind'' \<or> endswith type_value ''Sort'' then None
          else Some type_value)"

definition write_attributes :: "heap \<Rightarrow> cid \<Rightarrow> textio \<Rightarrow> textio" where
  "write_attributes h cls fl =
     (let attrs = c_attribute (h cls);
          w1 = [WAttribute (a_name a) (type_converter a).
                  a \<leftarrow> attrs, a_association a = None];
          w2 = [WRelationOne (a_name a) (type_converter a).
                  a \<leftarrow> attrs, a_association a \<noteq> None,
                  truthy (a_name a) \<and> a_name a \<noteq> Some ''baseClass''];
          w3 = [WOperation ob. ob \<leftarrow> c_ownedOperation (h cls)];
          written = (w1 \<noteq> [] \<or> w2 \<noteq> [] \<or> w3 \<noteq> [])
      in fl @ w1 @ w2 @ w3 @ (if \<not> written then [WPass] else []))"

text \<open>
  \<^verbatim>\<open>write_class_signature\<close> returns the flag and the file after its writes. It raises
  \<^verbatim>\<open>KeyError\<close> when the class is no key of \<open>trees\<close> and \<^verbatim>\<open>TypeError\<close> when \<^verbatim>\<open>join\<close> meets a
  name that is \<^verbatim>\<open>None\<close>; both happen before anything is written.
\<close>

definition write_class_signature ::
  "trees \<Rightarrow> heap \<Rightarrow> cid \<Rightarrow> string option set \<Rightarrow> textio \<Rightarrow> py_error + (bool \<times> textio)" where
  "write_class_signature trees h cls cls_written fl =
     (case dict_get trees cls of
        None \<Rightarrow> Inl KeyError
      | Some parents \<Rightarrow>
          let base_classes = map (\<lambda>c. c_name (h c)) parents in
          if base_classes \<noteq> [] then
            if \<forall>cls_name \<in> set base_classes. cls_name \<in> cls_written then
              (case those base_classes of
                 None \<Rightarrow> Inl TypeError
               | Some bs \<Rightarrow>
                   Inr (True, write_attributes h cls (fl @ [WClassBases (c_name (h cls)) bs])))
            else Inr (False, fl)
          else Inr (True, write_attributes h cls (fl @ [WClass (c_name (h cls))])))"

text \<open>The unused list \<^verbatim>\<open>filtered_classes\<close> of the source has no effect and is left out.\<close>

definition filter_uml_classes :: "string list \<Rightarrow> heap \<Rightarrow> cid list \<Rightarrow> cid list" where
  "filter_uml_classes uml_directory h classes =
     [cls \<leftarrow> classes.
        (case c_name (h cls) of None \<Rightarrow> False | Some n \<Rightarrow> n \<in> set uml_directory)]"

text \<open>
  \<^verbatim>\<open>get_class_extensions\<close> is a generator and both of its callers run it to its end, so it is
  given as the list of the classes it yields. It raises \<^verbatim>\<open>AttributeError\<close> at the first end
  named \<^verbatim>\<open>baseClass\<close> whose association has no owned end.
\<close>

fun extensions_loop :: "property list \<Rightarrow> py_error + cid list" where
  "extensions_loop [] = Inr []"
| "extensions_loop (a # rest) =
     (case a_association a of
        None \<Rightarrow> extensions_loop rest
      | Some assoc \<Rightarrow>
          if a_name a = Some ''baseClass'' then
            (case ownedEnd assoc of
               None \<Rightarrow> Inl AttributeError
             | Some meta_cls \<Rightarrow>
                 (case extensions_loop rest of
                    Inl e \<Rightarrow> Inl e
                  | Inr meta_classes \<Rightarrow> Inr (meta_cls # meta_classes)))
          else extensions_loop rest)"

definition get_class_extensions :: "heap \<Rightarrow> cid \<Rightarrow> py_error + cid list" where
  "get_class_extensions h cls = extensions_loop (c_attribute (h cls))"

text \<open>
  \<^verbatim>\<open>create_class_trees\<close> is written in state-passing form: the heap goes through the loop and
  is returned with the outcome, so that what the call does to its inputs is a statement
  about the function. No statement of the loop writes to a model element; the list
  \<^verbatim>\<open>classes\<close> is only iterated.
\<close>

fun create_class_trees_loop :: "cid list \<Rightarrow> trees \<Rightarrow> heap \<Rightarrow> (py_error + trees) \<times> heap" where
  "create_class_trees_loop [] trees h = (Inr trees, h)"
| "create_class_trees_loop (cls # rest) trees h =
     (let base_classes = c_general (h cls)
      in case get_class_extensions h cls of
           Inl e \<Rightarrow> (Inl e, h)
         | Inr meta_classes \<Rightarrow>
             create_class_trees_loop rest (dict_set trees cls (base_classes @ meta_classes)) h)"

definition create_class_trees :: "heap \<Rightarrow> cid list \<Rightarrow> (py_error + trees) \<times> heap" where
  "create_class_trees h classes = create_class_trees_loop classes [] h"

fun create_referenced_loop :: "heap \<Rightarrow> cid list \<Rightarrow> cid set \<Rightarrow> py_error + cid set" where
  "create_referenced_loop h [] referenced = Inr referenced"
| "create_referenced_loop h (cls # rest) referenced =
     (case get_class_extensions h cls of
        Inl e \<Rightarrow> Inl e
      | Inr meta_classes \<Rightarrow>
          create_referenced_loop h rest
            (fold insert meta_classes (fold insert (c_general (h cls)) referenced)))"

definition create_referenced :: "heap \<Rightarrow> cid list \<Rightarrow> py_error + cid set" where
  "create_referenced h classes = create_referenced_loop h classes {}"

definition find_root_nodes :: "trees \<Rightarrow> cid set \<Rightarrow> cid list" where
  "find_root_nodes trees referenced =
     [key. (key, val) \<leftarrow> trees, val = [] \<and> key \<in> referenced]"

definition neighbors :: "trees \<Rightarrow> cid \<Rightarrow> cid list" where
  "neighbors trees node = [key. (key, val) \<leftarrow> trees, node \<in> set val]"

function bfs_loop :: "trees \<Rightarrow> cid list \<Rightarrow> cid list \<Rightarrow> cid list" where
  "bfs_loop trees explored [] = explored"
| "bfs_loop trees explored (node # queue) =
     (if node \<notin> set explored
      then bfs_loop trees (explored @ [node]) (queue @ neighbors trees node)
      else bfs_loop trees explored queue)"
  by pat_completeness auto

termination bfs_loop
proof (relation "(\<lambda>(t, e, q). card ((set q \<union> fst ` set t) - set e)) <*mlex*>
                   measure (\<lambda>(t, e, q). length q)", goal_cases)
  case 1
  show ?case by (simp add: wf_mlex)
next
  case (2 trees explored node queue)
  have "set (neighbors trees node) \<subseteq> fst ` set trees"
    by (force simp: neighbors_def)
  with 2 have "(set (queue @ neighbors trees node) \<union> fst ` set trees) - set (explored @ [node])
          \<subset> (set (node # queue) \<union> fst ` set trees) - set explored"
    by auto
  then have "card ((set (queue @ neighbors trees node) \<union> fst ` set trees) - set (explored @ [node]))
          < card ((set (node # queue) \<union> fst ` set trees) - set explored)"
    by (intro psubset_card_mono) auto
  then show ?case by (simp add: mlex_less)
next
  case (3 trees explored node queue)
  have "card ((set queue \<union> fst ` set trees) - set explored)
          \<le> card ((set (node # queue) \<union> fst ` set trees) - set explored)"
    by (intro card_mono) auto
  then show ?case by (simp add: mlex_leq)
qed

definition breadth_first_search :: "trees \<Rightarrow> cid list \<Rightarrow> cid list" where
  "breadth_first_search trees root_nodes = bfs_loop trees [] root_nodes"

subsection \<open>The body of \<^verbatim>\<open>generate\<close>\<close>

text \<open>
  Line 201, \<^verbatim>\<open>[cls for cls in classes if cls.name[0] != "~"]\<close>: indexing a name that is
  \<^verbatim>\<open>None\<close> raises \<^verbatim>\<open>TypeError\<close>, indexing the empty name raises \<^verbatim>\<open>IndexError\<close>; the first
  class at fault in list order decides.
\<close>

fun select_classes :: "heap \<Rightarrow> cid list \<Rightarrow> py_error + cid list" where
  "select_classes h [] = Inr []"
| "select_classes h (cls # rest) =
     (case c_name (h cls) of
        None \<Rightarrow> Inl TypeError
      | Some [] \<Rightarrow> Inl IndexError
      | Some (ch # _) \<Rightarrow>
          (case select_classes h rest of
             Inl e \<Rightarrow> Inl e
           | Inr r \<Rightarrow> Inr (if ch \<noteq> CHR ''~'' then cls # r else r)))"

text \<open>The state of the emitter: the open file and the two local variables of \<^verbatim>\<open>generate\<close>.\<close>

record emit_state =
  f_out :: textio
  cls_written :: "string option set"
  classes_deferred :: "cid list"

text \<open>Lines 209 to 211: one import line for each class found in the UML vocabulary.\<close>

fun import_pass :: "heap \<Rightarrow> cid list \<Rightarrow> emit_state \<Rightarrow> emit_state" where
  "import_pass h [] st = st"
| "import_pass h (cls # rest) st =
     import_pass h rest
       (st\<lparr>f_out := f_out st @ [WImport (c_name (h cls))],
           cls_written := insert (c_name (h cls)) (cls_written st)\<rparr>)"

text \<open>
  Lines 215 to 220, the first pass. A loop returns the outcome together with the state it
  reached, since what has been written stays in the file when an exception leaves the loop.
\<close>

fun first_pass :: "trees \<Rightarrow> heap \<Rightarrow> cid list \<Rightarrow> emit_state \<Rightarrow> (py_error + unit) \<times> emit_state" where
  "first_pass trees h [] st = (Inr (), st)"
| "first_pass trees h (cls # rest) st =
     (if c_name (h cls) \<notin> cls_written st then
        (case write_class_signature trees h cls (cls_written st) (f_out st) of
           Inl e \<Rightarrow> (Inl e, st)
         | Inr (True, fl) \<Rightarrow>
             first_pass trees h rest
               (st\<lparr>f_out := fl, cls_written := insert (c_name (h cls)) (cls_written st)\<rparr>)
         | Inr (False, fl) \<Rightarrow>
             first_pass trees h rest
               (st\<lparr>f_out := fl, classes_deferred := classes_deferred st @ [cls]\<rparr>))
      else first_pass trees h rest st)"

text \<open>Lines 222 and 223, the second pass: the value returned by the call is dropped.\<close>

fun second_pass :: "trees \<Rightarrow> heap \<Rightarrow> cid list \<Rightarrow> emit_state \<Rightarrow> (py_error + unit) \<times> emit_state" where
  "second_pass trees h [] st = (Inr (), st)"
| "second_pass trees h (cls # rest) st =
     (case write_class_signature trees h cls (cls_written st) (f_out st) of
        Inl e \<Rightarrow> (Inl e, st)
      | Inr (_, fl) \<Rightarrow> second_pass trees h rest (st\<lparr>f_out := fl\<rparr>))"

text \<open>
  Lines 203 to 223, from the selected classes and the file holding the header. When line
  203 or 204 raises, nothing has been written since the header.
\<close>

definition emit :: "string list \<Rightarrow> heap \<Rightarrow> cid list \<Rightarrow> textio \<Rightarrow> (py_error + unit) \<times> emit_state" where
  "emit uml_directory h classes fl =
     (case create_class_trees h classes of
        (Inl e, h1) \<Rightarrow> (Inl e, \<lparr>f_out = fl, cls_written = {}, classes_deferred = []\<rparr>)
      | (Inr trees, h1) \<Rightarrow>
          (case create_referenced h1 classes of
             Inl e \<Rightarrow> (Inl e, \<lparr>f_out = fl, cls_written = {}, classes_deferred = []\<rparr>)
           | Inr referenced \<Rightarrow>
               let root_nodes = find_root_nodes trees referenced;
                   uml_classes = filter_uml_classes uml_directory h1 classes;
                   st0 = import_pass h1 uml_classes
                           \<lparr>f_out = fl, cls_written = {}, classes_deferred = []\<rparr>;
                   classes_found = breadth_first_search trees root_nodes
               in case first_pass trees h1 classes_found st0 of
                    (Inl e, st1) \<Rightarrow> (Inl e, st1)
                  | (Inr _, st1) \<Rightarrow> second_pass trees h1 (classes_deferred st1) st1))"

text \<open>The block under \<^verbatim>\<open>with open(outfile, "w") as f\<close>: the outcome and the file as it is
  when the block is left.\<close>

definition generate_body :: "string list \<Rightarrow> model \<Rightarrow> (py_error + unit) \<times> textio" where
  "generate_body uml_directory m =
     (let fl = [WHeader] in
      case select_classes (m_heap m) (m_classes m) of
        Inl e \<Rightarrow> (Inl e, fl)
      | Inr classes \<Rightarrow>
          (case emit uml_directory (m_heap m) classes fl of (r, st) \<Rightarrow> (r, f_out st)))"

text \<open>
  The file system as \<^verbatim>\<open>generate\<close> sees it. A file holds a model, as \<^verbatim>\<open>storage.load\<close> builds it
  from the file, or a text; a path without a file, or with a file that is no model, makes
  opening or loading raise. \<open>unwritable\<close> holds the paths that \<^verbatim>\<open>open(outfile, "w")\<close> refuses.
\<close>

datatype file_content = ModelFile model | TextFile textio

record world =
  files :: "string \<rightharpoonup> file_content"
  unwritable :: "string set"

text \<open>
  \<^verbatim>\<open>generate\<close>: the model is loaded first; \<^verbatim>\<open>open(outfile, "w")\<close> then creates or empties the
  output file, and the file keeps whatever the block wrote, whether the block ends or
  raises. The overrides path is not used, and \<^verbatim>\<open>element_factory.shutdown()\<close> after the block
  touches no file.
\<close>

definition generate ::
  "string list \<Rightarrow> world \<Rightarrow> string \<Rightarrow> string \<Rightarrow> string option \<Rightarrow> (py_error + unit) \<times> world" where
  "generate uml_directory w filename outfile overridesfile =
     (case files w filename of
        Some (ModelFile m) \<Rightarrow>
          if outfile \<in> unwritable w then (Inl OSError, w)
          else (case generate_body uml_directory m of
                  (r, fl) \<Rightarrow> (r, w\<lparr>files := (files w)(outfile \<mapsto> TextFile fl)\<rparr>))
      | _ \<Rightarrow> (Inl ModelLoadFailure, w))"

section \<open>Notions used to state the properties\<close>

text \<open>The list \<^verbatim>\<open>base_classes\<close> that line 64 computes for a class.\<close>

definition base_names :: "trees \<Rightarrow> heap \<Rightarrow> cid \<Rightarrow> string option list" where
  "base_names trees h cls =
     (case dict_get trees cls of None \<Rightarrow> [] | Some parents \<Rightarrow> map (\<lambda>c. c_name (h c)) parents)"

text \<open>What one call of \<^verbatim>\<open>write_class_signature\<close> adds to the file.\<close>

definition written_by :: "trees \<Rightarrow> heap \<Rightarrow> string option set \<Rightarrow> cid \<Rightarrow> textio" where
  "written_by trees h written cls =
     (case write_class_signature trees h cls written [] of
        Inl e \<Rightarrow> []
      | Inr (_, fl) \<Rightarrow> fl)"

text \<open>A write that opens the definition of a class of the given name, a write that imports
  the name, and the parent names a write mentions.\<close>

fun class_line :: "write_call \<Rightarrow> string option \<Rightarrow> bool" where
  "class_line (WClass m) n = (m = n)"
| "class_line (WClassBases m bs) n = (m = n)"
| "class_line _ n = False"

fun import_line :: "write_call \<Rightarrow> string option \<Rightarrow> bool" where
  "import_line (WImport m) n = (m = n)"
| "import_line _ n = False"

fun bases_of :: "write_call \<Rightarrow> string list" where
  "bases_of (WClassBases m bs) = bs"
| "bases_of _ = []"

text \<open>The first character of a name is the tilde.\<close>

fun tilde_name :: "string option \<Rightarrow> bool" where
  "tilde_name (Some (ch # _)) = (ch = CHR ''~'')"
| "tilde_name _ = False"

text \<open>The names that the writes of a file define, and the order property of a file: the
  parent names of a class line are all defined by earlier writes.\<close>

definition names_defined :: "textio \<Rightarrow> string option set" where
  "names_defined fl = {n. \<exists>d \<in> set fl. class_line d n \<or> import_line d n}"

definition ordered :: "textio \<Rightarrow> bool" where
  "ordered fl = (\<forall>pre it post b. fl = pre @ it # post \<longrightarrow> b \<in> set (bases_of it) \<longrightarrow>
      (\<exists>d \<in> set pre. class_line d (Some b) \<or> import_line d (Some b)))"

text \<open>The mapping of line 203 and the set of line 204 (empty when the call raises), the
  list \<^verbatim>\<open>classes_found\<close> of line 213, and the classes that line 201 keeps.\<close>

definition trees_of :: "heap \<Rightarrow> cid list \<Rightarrow> trees" where
  "trees_of h classes =
     (case fst (create_class_trees h classes) of Inl e \<Rightarrow> [] | Inr trees \<Rightarrow> trees)"

definition referenced_of :: "heap \<Rightarrow> cid list \<Rightarrow> cid set" where
  "referenced_of h classes =
     (case create_referenced h classes of Inl e \<Rightarrow> {} | Inr referenced \<Rightarrow> referenced)"

definition classes_found :: "heap \<Rightarrow> cid list \<Rightarrow> cid list" where
  "classes_found h classes =
     breadth_first_search (trees_of h classes)
       (find_root_nodes (trees_of h classes) (referenced_of h classes))"

definition kept_classes :: "heap \<Rightarrow> cid list \<Rightarrow> cid list" where
  "kept_classes h classes = filter (\<lambda>c. \<not> tilde_name (c_name (h c))) classes"

text \<open>Every end named \<^verbatim>\<open>baseClass\<close> that a class of the list owns belongs to an association
  with an owned end.\<close>

definition extension_ends_owned :: "heap \<Rightarrow> cid list \<Rightarrow> bool" where
  "extension_ends_owned h classes =
     (\<forall>c \<in> set classes. \<forall>a \<in> set (c_attribute (h c)).
        a_name a = Some ''baseClass'' \<longrightarrow>
          (case a_association a of None \<Rightarrow> True | Some s \<Rightarrow> ownedEnd s \<noteq> None))"

text \<open>Lines 207 to 220: the import lines and the first pass, from the selected classes and
  the file as it is after the header.\<close>

definition after_first_pass ::
  "string list \<Rightarrow> heap \<Rightarrow> cid list \<Rightarrow> textio \<Rightarrow> (py_error + unit) \<times> emit_state" where
  "after_first_pass uml_directory h classes fl =
     first_pass (trees_of h classes) h (classes_found h classes)
       (import_pass h (filter_uml_classes uml_directory h classes)
          \<lparr>f_out = fl, cls_written = {}, classes_deferred = []\<rparr>)"

text \<open>The classes that \<^verbatim>\<open>get_class_extensions\<close> yields for a class (none when it raises).\<close>

definition extension_targets :: "heap \<Rightarrow> cid \<Rightarrow> cid list" where
  "extension_targets h cls =
     (case get_class_extensions h cls of Inl e \<Rightarrow> [] | Inr meta_classes \<Rightarrow> meta_classes)"

section \<open>Example models\<close>

definition no_class :: uml_class where
  "no_class = \<lparr>c_name = None, c_general = [], c_attribute = [], c_ownedOperation = []\<rparr>"

definition plain_class :: "string \<Rightarrow> cid list \<Rightarrow> uml_class" where
  "plain_class n g = \<lparr>c_name = Some n, c_general = g, c_attribute = [], c_ownedOperation = []\<rparr>"

text \<open>A predefined class \<^verbatim>\<open>M\<close>, a class \<^verbatim>\<open>Y\<close> that extends it and owns a string attribute,
  and a class \<^verbatim>\<open>Z\<close> that generalizes \<^verbatim>\<open>Y\<close>.\<close>

definition chain_heap :: heap where
  "chain_heap = (\<lambda>_. no_class)
     (0 := plain_class ''M'' [],
      1 := \<lparr>c_name = Some ''Y'', c_general = [],
             c_attribute =
               [\<lparr>a_name = Some ''baseClass'', a_typeValue = None, a_association = Some \<lparr>ownedEnd = Some 0\<rparr>\<rparr>,
                \<lparr>a_name = Some ''label'', a_typeValue = Some ''String'', a_association = None\<rparr>],
             c_ownedOperation = []\<rparr>,
      2 := plain_class ''Z'' [1])"

text \<open>A root \<^verbatim>\<open>R\<close>, and two classes \<^verbatim>\<open>A\<close> (parents \<^verbatim>\<open>R\<close> and \<^verbatim>\<open>B\<close>) and \<^verbatim>\<open>B\<close> (parent \<^verbatim>\<open>A\<close>)
  on a cycle.\<close>

definition cycle_heap :: heap where
  "cycle_heap = (\<lambda>_. no_class)
     (0 := plain_class ''R'' [], 1 := plain_class ''A'' [0, 2], 2 := plain_class ''B'' [1])"

text \<open>Two classes that generalize each other.\<close>

definition mutual_heap :: heap where
  "mutual_heap = (\<lambda>_. no_class) (0 := plain_class ''A'' [1], 1 := plain_class ''B'' [0])"

definition mutual_world :: world where
  "mutual_world =
     \<lparr>files = [''model.gaphor'' \<mapsto> ModelFile \<lparr>m_heap = mutual_heap, m_classes = [0, 1]\<rparr>],
      unwritable = {}\<rparr>"

text \<open>A root \<^verbatim>\<open>R\<close>, a class \<^verbatim>\<open>P\<close> with the parents \<^verbatim>\<open>R\<close> and \<^verbatim>\<open>Q\<close>, the class \<^verbatim>\<open>Q\<close> with the
  parent \<^verbatim>\<open>R\<close>, listed after \<^verbatim>\<open>P\<close>, and a class \<^verbatim>\<open>D\<close> with the parent \<^verbatim>\<open>P\<close>.\<close>

definition late_parent_heap :: heap where
  "late_parent_heap = (\<lambda>_. no_class)
     (0 := plain_class ''R'' [], 1 := plain_class ''P'' [0, 2], 2 := plain_class ''Q'' [0],
      3 := plain_class ''D'' [1])"

text \<open>A model whose only class has the empty name, and an output file left by an earlier
  run.\<close>

definition unnamed_world :: world where
  "unnamed_world =
     \<lparr>files = [''model.gaphor'' \<mapsto>
                 ModelFile \<lparr>m_heap = (\<lambda>_. no_class) (0 := plain_class [] []), m_classes = [0]\<rparr>,
               ''out.py'' \<mapsto> TextFile [WHeader, WClass (Some ''Old''), WPass]],
      unwritable = {}\<rparr>"


text \<open>A root \<^verbatim>\<open>R\<close> with the children \<^verbatim>\<open>~T\<close> and \<^verbatim>\<open>C\<close>.\<close>

definition tilde_heap :: heap where
  "tilde_heap = (\<lambda>_. no_class)
     (0 := plain_class ''R'' [], 1 := plain_class ''~T'' [0], 2 := plain_class ''C'' [0])"

text \<open>A class \<^verbatim>\<open>S\<close> that owns an end named \<^verbatim>\<open>baseClass\<close> of a plain association, which has no
  owned end.\<close>

definition plain_end_heap :: heap where
  "plain_end_heap = (\<lambda>_. no_class)
     (0 := \<lparr>c_name = Some ''S'', c_general = [],
             c_attribute =
               [\<lparr>a_name = Some ''baseClass'', a_typeValue = None,
                 a_association = Some \<lparr>ownedEnd = None\<rparr>\<rparr>],
             c_ownedOperation = []\<rparr>)"


text \<open>The mapping built for a model and the emitter state at the start of the second pass,
  for two of the models.\<close>

definition start_second_pass :: "heap \<Rightarrow> cid list \<Rightarrow> emit_state" where
  "start_second_pass h classes = snd (after_first_pass [] h classes [WHeader])"

definition cycle_trees :: trees where
  "cycle_trees = trees_of cycle_heap [0, 1, 2]"

definition cycle_state :: emit_state where
  "cycle_state = start_second_pass cycle_heap [0, 1, 2]"

definition late_parent_trees :: trees where
  "late_parent_trees = trees_of late_parent_heap [0, 1, 2, 3]"

definition late_parent_state :: emit_state where
  "late_parent_state = start_second_pass late_parent_heap [0, 1, 2, 3]"

section \<open>The attribute type mapper\<close>

lemma lower_char_fix: "lower_char (CHR ''d'') = CHR ''d''" "lower_char (CHR ''t'') = CHR ''t''"
  by code_simp+

lemma last_lower: "s \<noteq> [] \<Longrightarrow> last (lower s) = lower_char (last s)"
  by (simp add: lower_def last_map)

lemma endswith_last: "endswith s suf \<Longrightarrow> suf \<noteq> [] \<Longrightarrow> s \<noteq> [] \<and> last s = last suf"
  unfolding endswith_def
  by (metis diff_less last_drop length_greater_0_conv list.size(3) le_zero_eq)

lemma enum_marker_not_primitive:
  assumes "endswith s ''Kind'' \<or> endswith s ''Sort''"
  shows "lower s \<notin> {''boolean'', ''integer'', ''unlimitednatural'', ''string''}"
proof -
  from assms have ne: "s \<noteq> []" and l: "last s = CHR ''d'' \<or> last s = CHR ''t''"
    using endswith_last [of s "''Kind''"] endswith_last [of s "''Sort''"] by auto
  from ne l have "last (lower s) = CHR ''d'' \<or> last (lower s) = CHR ''t''"
    by (auto simp: last_lower lower_char_fix)
  then show ?thesis by auto
qed

text \<open>
  Claim C7. \<^verbatim>\<open>type_converter\<close> gives \<^verbatim>\<open>str\<close> for the type name \<^verbatim>\<open>String\<close>, \<^verbatim>\<open>int\<close> for
  \<^verbatim>\<open>Boolean\<close>, \<^verbatim>\<open>Integer\<close> and \<^verbatim>\<open>UnlimitedNatural\<close>, no type for \<^verbatim>\<open>MoodKind\<close> and for an
  absent type name, and any name that none of the earlier rules takes (it is not one of the
  four primitive names in any letter case and does not end in \<^verbatim>\<open>Kind\<close> or \<^verbatim>\<open>Sort\<close>) is
  returned as it stands.
\<close>

theorem type_converter_table:
  "type_converter (p\<lparr>a_typeValue := Some ''String''\<rparr>) = Some ''str''
   \<and> type_converter (p\<lparr>a_typeValue := Some ''Boolean''\<rparr>) = Some ''int''
   \<and> type_converter (p\<lparr>a_typeValue := Some ''Integer''\<rparr>) = Some ''int''
   \<and> type_converter (p\<lparr>a_typeValue := Some ''UnlimitedNatural''\<rparr>) = Some ''int''
   \<and> type_converter (p\<lparr>a_typeValue := Some ''MoodKind''\<rparr>) = None
   \<and> type_converter (p\<lparr>a_typeValue := None\<rparr>) = None
   \<and> (lower s \<notin> {''boolean'', ''integer'', ''unlimitednatural'', ''string''}
        \<and> \<not> endswith s ''Kind'' \<and> \<not> endswith s ''Sort''
        \<longrightarrow> type_converter (p\<lparr>a_typeValue := Some s\<rparr>) = Some s)"
proof -
  have l: "lower ''String'' = ''string''" "lower ''Boolean'' = ''boolean''"
    "lower ''Integer'' = ''integer''" "lower ''UnlimitedNatural'' = ''unlimitednatural''"
    "lower ''MoodKind'' = ''moodkind''"
    by code_simp+
  have e: "endswith ''MoodKind'' ''Kind''"
    by (simp add: endswith_def)
  show ?thesis
    by (simp add: type_converter_def l e)
qed

theorem type_converter_table_witness:
  "lower ''Block'' \<notin> {''boolean'', ''integer'', ''unlimitednatural'', ''string''}
   \<and> \<not> endswith ''Block'' ''Kind'' \<and> \<not> endswith ''Block'' ''Sort''
   \<and> type_converter (\<lparr>a_name = Some ''part'', a_typeValue = None, a_association = None\<rparr>
                        \<lparr>a_typeValue := Some ''Block''\<rparr>) = Some ''Block''"
proof -
  have l: "lower ''Block'' = ''block''" by code_simp
  have h: "lower ''Block'' \<notin> {''boolean'', ''integer'', ''unlimitednatural'', ''string''}
           \<and> \<not> endswith ''Block'' ''Kind'' \<and> \<not> endswith ''Block'' ''Sort''"
    by (simp add: l endswith_def)
  from type_converter_table
         [of "\<lparr>a_name = Some ''part'', a_typeValue = None, a_association = None\<rparr>" "''Block''"] h
  show ?thesis by blast
qed

text \<open>
  Claim C6, as stated, fails. \<^verbatim>\<open>MoodKind\<close> and \<^verbatim>\<open>MOODKIND\<close> differ in letter case only, yet the
  first maps to no type and the second is passed through: the test for the ending is done
  on the name as written.
\<close>

theorem type_converter_case_counterexample:
  "lower ''MoodKind'' = lower ''MOODKIND''
   \<and> type_converter \<lparr>a_name = Some ''mood'', a_typeValue = Some ''MoodKind'', a_association = None\<rparr>
       = None
   \<and> type_converter \<lparr>a_name = Some ''mood'', a_typeValue = Some ''MOODKIND'', a_association = None\<rparr>
       = Some ''MOODKIND''"
proof -
  have l: "lower ''MoodKind'' = ''moodkind''" "lower ''MOODKIND'' = ''moodkind''"
    by code_simp+
  show ?thesis
    by (simp add: type_converter_def l endswith_def)
qed

text \<open>
  Claim C6, amended. Letter case is ignored only in recognising the four primitive names:
  two names that agree up to letter case, and are one of \<^verbatim>\<open>boolean\<close>, \<^verbatim>\<open>integer\<close>,
  \<^verbatim>\<open>unlimitednatural\<close>, \<^verbatim>\<open>string\<close> up to letter case, map to the same token. The enumeration
  rule holds for names that end in \<^verbatim>\<open>Kind\<close> or \<^verbatim>\<open>Sort\<close> written exactly so.
\<close>

theorem type_converter_case_insensitive_primitives:
  "(lower s = lower t \<and> lower s \<in> {''boolean'', ''integer'', ''unlimitednatural'', ''string''}
      \<longrightarrow> type_converter (p\<lparr>a_typeValue := Some s\<rparr>) = type_converter (p\<lparr>a_typeValue := Some t\<rparr>))
   \<and> (endswith s ''Kind'' \<or> endswith s ''Sort''
      \<longrightarrow> type_converter (p\<lparr>a_typeValue := Some s\<rparr>) = None)"
proof (intro conjI impI)
  assume "lower s = lower t \<and> lower s \<in> {''boolean'', ''integer'', ''unlimitednatural'', ''string''}"
  then show "type_converter (p\<lparr>a_typeValue := Some s\<rparr>) = type_converter (p\<lparr>a_typeValue := Some t\<rparr>)"
    by (auto simp: type_converter_def)
next
  assume a: "endswith s ''Kind'' \<or> endswith s ''Sort''"
  from enum_marker_not_primitive [OF a] a
  show "type_converter (p\<lparr>a_typeValue := Some s\<rparr>) = None"
    by (simp add: type_converter_def)
qed

theorem type_converter_case_insensitive_primitives_witness:
  "lower ''STRING'' = lower ''String''
   \<and> lower ''STRING'' \<in> {''boolean'', ''integer'', ''unlimitednatural'', ''string''}
   \<and> endswith ''AggregationKind'' ''Kind''
   \<and> type_converter \<lparr>a_name = None, a_typeValue = Some ''STRING'', a_association = None\<rparr>
       = type_converter \<lparr>a_name = None, a_typeValue = Some ''String'', a_association = None\<rparr>
   \<and> type_converter \<lparr>a_name = None, a_typeValue = Some ''AggregationKind'', a_association = None\<rparr>
       = None"
proof -
  have l: "lower ''STRING'' = ''string''" "lower ''String'' = ''string''"
    by code_simp+
  have h1: "lower ''STRING'' = lower ''String''
            \<and> lower ''STRING'' \<in> {''boolean'', ''integer'', ''unlimitednatural'', ''string''}"
    by (simp add: l)
  have h2: "endswith ''AggregationKind'' ''Kind''"
    by (simp add: endswith_def)
  from type_converter_case_insensitive_primitives
         [of "''STRING''" "''String''" "\<lparr>a_name = None, a_typeValue = None, a_association = None\<rparr>"]
       type_converter_case_insensitive_primitives
         [of "''AggregationKind''" "''x''" "\<lparr>a_name = None, a_typeValue = None, a_association = None\<rparr>"]
       h1 h2
  show ?thesis by (simp add: l)
qed

section \<open>The class graph builder\<close>

lemma dict_get_map_of: "dict_get d k = map_of d k"
  by (induction d) auto

lemma dict_get_set: "dict_get (dict_set d k v) k' = (if k' = k then Some v else dict_get d k')"
  by (induction d k v rule: dict_set.induct) auto

lemma keys_dict_set:
  "map fst (dict_set d k v) = (if k \<in> fst ` set d then map fst d else map fst d @ [k])"
  by (induction d k v rule: dict_set.induct) (auto simp: image_iff)

lemma keys_set_dict_set: "fst ` set (dict_set d k v) = insert k (fst ` set d)"
  by (induction d k v rule: dict_set.induct) auto

lemma distinct_dict_set: "distinct (map fst d) \<Longrightarrow> distinct (map fst (dict_set d k v))"
  by (simp add: keys_dict_set)

lemma dict_get_None: "(dict_get d k = None) = (k \<notin> fst ` set d)"
  by (simp add: dict_get_map_of map_of_eq_None_iff)

lemma dict_get_Some: "distinct (map fst d) \<Longrightarrow> (dict_get d k = Some v) = ((k, v) \<in> set d)"
  by (simp add: dict_get_map_of)

lemma trees_fold_keys:
  "fst ` set (foldl (\<lambda>trees cls. dict_set trees cls (g cls)) d classes) = fst ` set d \<union> set classes"
proof (induction classes arbitrary: d)
  case Nil
  show ?case by simp
next
  case (Cons c cs)
  then show ?case by (simp add: keys_set_dict_set)
qed

lemma trees_fold_distinct:
  "distinct (map fst d) \<Longrightarrow>
   distinct (map fst (foldl (\<lambda>trees cls. dict_set trees cls (g cls)) d classes))"
  by (induction classes arbitrary: d) (simp_all add: distinct_dict_set)

lemma trees_fold_order:
  "distinct classes \<Longrightarrow> set classes \<inter> fst ` set d = {} \<Longrightarrow>
   map fst (foldl (\<lambda>trees cls. dict_set trees cls (g cls)) d classes) = map fst d @ classes"
proof (induction classes arbitrary: d)
  case Nil
  show ?case by simp
next
  case (Cons c cs)
  from Cons.prems have k: "map fst (dict_set d c (g c)) = map fst d @ [c]"
    by (simp add: keys_dict_set)
  from Cons.prems have "set cs \<inter> fst ` set (dict_set d c (g c)) = {}"
    by (auto simp: keys_set_dict_set)
  with Cons.IH [of "dict_set d c (g c)"] Cons.prems k show ?case by simp
qed

lemma trees_fold_get:
  "dict_get (foldl (\<lambda>trees cls. dict_set trees cls (g cls)) d classes) k =
     (if k \<in> set classes then Some (g k) else dict_get d k)"
  by (induction classes arbitrary: d) (auto simp: dict_get_set)

lemma extensions_loop_error: "extensions_loop as = Inl e \<Longrightarrow> e = AttributeError"
  by (induction as) (auto split: option.splits if_splits sum.splits)

lemma extensions_loop_Inr_iff:
  "(\<exists>ms. extensions_loop as = Inr ms) \<longleftrightarrow>
     (\<forall>a \<in> set as. a_name a = Some ''baseClass'' \<longrightarrow>
        (case a_association a of None \<Rightarrow> True | Some s \<Rightarrow> ownedEnd s \<noteq> None))"
  by (induction as) (auto split: option.splits sum.splits)

lemma extensions_loop_targets:
  "extensions_loop as = Inr ms \<Longrightarrow>
     map Some ms
       = map ownedEnd
           (List.map_filter (\<lambda>a. if a_name a = Some ''baseClass'' then a_association a else None) as)"
  by (induction as arbitrary: ms)
     (auto simp: List.map_filter_simps split: option.splits if_splits sum.splits)

lemma extension_ends_owned_iff:
  "extension_ends_owned h classes \<longleftrightarrow> (\<forall>c \<in> set classes. \<exists>ms. get_class_extensions h c = Inr ms)"
  by (simp add: extension_ends_owned_def get_class_extensions_def extensions_loop_Inr_iff)

lemma extension_targets_Inr: "get_class_extensions h c = Inr ms \<Longrightarrow> extension_targets h c = ms"
  by (simp add: extension_targets_def)

lemma create_class_trees_loop_frame: "snd (create_class_trees_loop classes t h) = h"
  by (induction classes arbitrary: t) (auto split: sum.splits)

lemma create_class_trees_loop_ok:
  "\<forall>c \<in> set classes. \<exists>ms. get_class_extensions h c = Inr ms \<Longrightarrow>
   create_class_trees_loop classes t h
     = (Inr (foldl (\<lambda>trees cls.
                      dict_set trees cls (c_general (h cls) @ extension_targets h cls))
               t classes), h)"
proof (induction classes arbitrary: t)
  case Nil
  show ?case by simp
next
  case (Cons c cs)
  then obtain ms where ms: "get_class_extensions h c = Inr ms" by auto
  with Cons show ?case by (simp add: extension_targets_Inr)
qed

lemma create_class_trees_loop_fail:
  "\<not> (\<forall>c \<in> set classes. \<exists>ms. get_class_extensions h c = Inr ms) \<Longrightarrow>
   fst (create_class_trees_loop classes t h) = Inl AttributeError"
proof (induction classes arbitrary: t)
  case Nil
  then show ?case by simp
next
  case (Cons c cs)
  show ?case
  proof (cases "get_class_extensions h c")
    case (Inl e)
    then have "e = AttributeError"
      by (simp add: get_class_extensions_def extensions_loop_error)
    with Inl show ?thesis by simp
  next
    case (Inr ms)
    with Cons.prems have "\<not> (\<forall>c \<in> set cs. \<exists>ms. get_class_extensions h c = Inr ms)" by auto
    from Cons.IH [OF this] Inr show ?thesis by simp
  qed
qed

lemma create_class_trees_ok:
  "extension_ends_owned h classes \<Longrightarrow>
   create_class_trees h classes
     = (Inr (foldl (\<lambda>trees cls.
                      dict_set trees cls (c_general (h cls) @ extension_targets h cls))
               [] classes), h)"
  by (simp add: create_class_trees_def create_class_trees_loop_ok extension_ends_owned_iff)

lemma create_class_trees_fail:
  "\<not> extension_ends_owned h classes \<Longrightarrow> fst (create_class_trees h classes) = Inl AttributeError"
  by (simp add: create_class_trees_def create_class_trees_loop_fail extension_ends_owned_iff)

lemma create_class_trees_frame: "snd (create_class_trees h classes) = h"
  by (simp add: create_class_trees_def create_class_trees_loop_frame)

lemma trees_of_ok:
  "extension_ends_owned h classes \<Longrightarrow>
   trees_of h classes
     = foldl (\<lambda>trees cls. dict_set trees cls (c_general (h cls) @ extension_targets h cls))
         [] classes"
  by (simp add: trees_of_def create_class_trees_ok)

lemma trees_of_fail: "\<not> extension_ends_owned h classes \<Longrightarrow> trees_of h classes = []"
  by (simp add: trees_of_def create_class_trees_fail)

lemma create_class_trees_Inr:
  assumes "fst (create_class_trees h classes) = Inr trees"
  shows "extension_ends_owned h classes" and "trees = trees_of h classes"
proof -
  show "extension_ends_owned h classes"
  proof (rule ccontr)
    assume "\<not> extension_ends_owned h classes"
    from create_class_trees_fail [OF this] assms show False by simp
  qed
  from assms show "trees = trees_of h classes" by (simp add: trees_of_def)
qed

lemma trees_of_distinct: "distinct (map fst (trees_of h classes))"
proof (cases "extension_ends_owned h classes")
  case True
  then show ?thesis by (simp add: trees_of_ok trees_fold_distinct)
next
  case False
  then show ?thesis by (simp add: trees_of_fail)
qed

lemma trees_of_keys: "fst ` set (trees_of h classes) \<subseteq> set classes"
proof (cases "extension_ends_owned h classes")
  case True
  then show ?thesis by (simp add: trees_of_ok trees_fold_keys)
next
  case False
  then show ?thesis by (simp add: trees_of_fail)
qed

lemma trees_of_keys_ok:
  "extension_ends_owned h classes \<Longrightarrow> fst ` set (trees_of h classes) = set classes"
  by (simp add: trees_of_ok trees_fold_keys)

lemma trees_of_entry:
  assumes "(k, v) \<in> set (trees_of h classes)"
  shows "k \<in> set classes \<and> v = c_general (h k) @ extension_targets h k"
proof -
  have ok: "extension_ends_owned h classes"
  proof (rule ccontr)
    assume "\<not> extension_ends_owned h classes"
    from trees_of_fail [OF this] assms show False by simp
  qed
  from assms have k: "k \<in> set classes"
    using trees_of_keys [of h classes] by force
  from assms have "dict_get (trees_of h classes) k = Some v"
    by (simp add: dict_get_Some trees_of_distinct)
  with k ok show ?thesis by (simp add: trees_of_ok trees_fold_get)
qed

text \<open>
  Claim C8, as stated, fails. A class that owns an end named \<^verbatim>\<open>baseClass\<close> of a plain
  association makes \<^verbatim>\<open>create_class_trees\<close> raise \<^verbatim>\<open>AttributeError\<close>, since the association has
  no owned end: no mapping is produced, so there is no entry for the class.
\<close>

theorem create_class_trees_raises_counterexample:
  "map a_name (c_attribute (plain_end_heap 0)) = [Some ''baseClass'']
   \<and> map (map_option ownedEnd \<circ> a_association) (c_attribute (plain_end_heap 0)) = [Some None]
   \<and> get_class_extensions plain_end_heap 0 = Inl AttributeError
   \<and> fst (create_class_trees plain_end_heap [0]) = Inl AttributeError"
  by code_simp

text \<open>
  Claim C8, amended. \<^verbatim>\<open>create_class_trees\<close> leaves the heap as it is, whatever its outcome.
  When every end named \<^verbatim>\<open>baseClass\<close> that an input class owns belongs to an association with
  an owned end, it returns a mapping with exactly one entry for each input class (the keys
  are distinct and are the input classes, in input order when the input has no
  repetition), also for a class without parents; the entry of a class is its generalization
  targets in their order followed by the classes at the opposite end of its association
  ends named \<^verbatim>\<open>baseClass\<close>. Otherwise it raises \<^verbatim>\<open>AttributeError\<close> and returns no mapping.
\<close>

theorem create_class_trees_entries:
  "snd (create_class_trees h classes) = h
   \<and> (extension_ends_owned h classes \<longrightarrow>
        (\<exists>trees. fst (create_class_trees h classes) = Inr trees
           \<and> distinct (map fst trees)
           \<and> set (map fst trees) = set classes
           \<and> (distinct classes \<longrightarrow> map fst trees = classes)
           \<and> (\<forall>cls \<in> set classes. \<exists>meta_classes.
                 get_class_extensions h cls = Inr meta_classes
                 \<and> dict_get trees cls = Some (c_general (h cls) @ meta_classes)
                 \<and> map Some meta_classes
                     = map ownedEnd
                         (List.map_filter
                            (\<lambda>a. if a_name a = Some ''baseClass'' then a_association a else None)
                            (c_attribute (h cls))))))
   \<and> (\<not> extension_ends_owned h classes \<longrightarrow>
        fst (create_class_trees h classes) = Inl AttributeError)"
proof (intro conjI impI)
  show "snd (create_class_trees h classes) = h" by (rule create_class_trees_frame)
next
  assume "\<not> extension_ends_owned h classes"
  then show "fst (create_class_trees h classes) = Inl AttributeError"
    by (rule create_class_trees_fail)
next
  assume ok: "extension_ends_owned h classes"
  let ?g = "\<lambda>cls. c_general (h cls) @ extension_targets h cls"
  let ?T = "foldl (\<lambda>trees cls. dict_set trees cls (?g cls)) [] classes"
  from create_class_trees_ok [OF ok] have 1: "fst (create_class_trees h classes) = Inr ?T"
    by simp
  have 2: "distinct (map fst ?T)" by (rule trees_fold_distinct) simp
  have 3: "set (map fst ?T) = set classes" by (simp add: trees_fold_keys)
  have 4: "distinct classes \<longrightarrow> map fst ?T = classes" by (simp add: trees_fold_order)
  have 5: "\<exists>meta_classes.
                 get_class_extensions h cls = Inr meta_classes
                 \<and> dict_get ?T cls = Some (c_general (h cls) @ meta_classes)
                 \<and> map Some meta_classes
                     = map ownedEnd
                         (List.map_filter
                            (\<lambda>a. if a_name a = Some ''baseClass'' then a_association a else None)
                            (c_attribute (h cls)))"
    if "cls \<in> set classes" for cls
  proof -
    from ok that obtain ms where ms: "get_class_extensions h cls = Inr ms"
      by (auto simp: extension_ends_owned_iff)
    from that have "dict_get ?T cls = Some (?g cls)" by (simp add: trees_fold_get)
    with ms have "dict_get ?T cls = Some (c_general (h cls) @ ms)"
      by (simp add: extension_targets_Inr)
    moreover from ms have "map Some ms
                     = map ownedEnd
                         (List.map_filter
                            (\<lambda>a. if a_name a = Some ''baseClass'' then a_association a else None)
                            (c_attribute (h cls)))"
      by (simp add: get_class_extensions_def extensions_loop_targets)
    ultimately show ?thesis using ms by blast
  qed
  from 1 2 3 4 5
  show "\<exists>trees. fst (create_class_trees h classes) = Inr trees
           \<and> distinct (map fst trees)
           \<and> set (map fst trees) = set classes
           \<and> (distinct classes \<longrightarrow> map fst trees = classes)
           \<and> (\<forall>cls \<in> set classes. \<exists>meta_classes.
                 get_class_extensions h cls = Inr meta_classes
                 \<and> dict_get trees cls = Some (c_general (h cls) @ meta_classes)
                 \<and> map Some meta_classes
                     = map ownedEnd
                         (List.map_filter
                            (\<lambda>a. if a_name a = Some ''baseClass'' then a_association a else None)
                            (c_attribute (h cls))))"
    by (intro exI [of _ ?T] conjI ballI) blast+
qed

text \<open>
  The amended claim C8 at the chain \<^verbatim>\<open>M\<close>, \<^verbatim>\<open>Y\<close>, \<^verbatim>\<open>Z\<close>, where \<^verbatim>\<open>Y\<close> extends \<^verbatim>\<open>M\<close>, and at the class
  with the end of a plain association.
\<close>

theorem create_class_trees_entries_witness:
  "extension_ends_owned chain_heap [0, 1, 2]
   \<and> distinct [0, 1, 2 :: nat]
   \<and> create_class_trees chain_heap [0, 1, 2] = (Inr [(0, []), (1, [0]), (2, [1])], chain_heap)
   \<and> get_class_extensions chain_heap 1 = Inr [0]
   \<and> \<not> extension_ends_owned plain_end_heap [0]
   \<and> create_class_trees plain_end_heap [0] = (Inl AttributeError, plain_end_heap)"
proof -
  have o: "extension_ends_owned chain_heap [0, 1, 2]" "distinct [0, 1, 2 :: nat]"
    "\<not> extension_ends_owned plain_end_heap [0]"
    by code_simp+
  have e: "fst (create_class_trees chain_heap [0, 1, 2]) = Inr [(0, []), (1, [0]), (2, [1])]"
    "get_class_extensions chain_heap 1 = Inr [0]"
    by code_simp+
  from create_class_trees_entries [of chain_heap "[0, 1, 2]"]
  have "snd (create_class_trees chain_heap [0, 1, 2]) = chain_heap" by blast
  with e(1) have 1: "create_class_trees chain_heap [0, 1, 2]
                       = (Inr [(0, []), (1, [0]), (2, [1])], chain_heap)"
    by (metis prod.collapse)
  from create_class_trees_entries [of plain_end_heap "[0]"] o(3)
  have "snd (create_class_trees plain_end_heap [0]) = plain_end_heap"
    "fst (create_class_trees plain_end_heap [0]) = Inl AttributeError"
    by blast+
  then have 2: "create_class_trees plain_end_heap [0] = (Inl AttributeError, plain_end_heap)"
    by (metis prod.collapse)
  from o e 1 2 show ?thesis by blast
qed

section \<open>The emitter\<close>

lemma write_attributes_plain:
  assumes "it \<in> set (write_attributes h cls [])"
  shows "\<not> class_line it n \<and> \<not> import_line it n \<and> bases_of it = []"
proof -
  from assms have "(\<exists>a t. it = WAttribute a t) \<or> (\<exists>a t. it = WRelationOne a t)
      \<or> (\<exists>ob. it = WOperation ob) \<or> it = WPass"
    unfolding write_attributes_def Let_def set_append set_concat set_map
    by (elim UnE) (auto split: if_splits)
  then show ?thesis by auto
qed

lemma write_attributes_snoc:
  "write_attributes h cls (fl @ [s]) = fl @ s # write_attributes h cls []"
  by (simp add: write_attributes_def Let_def)

lemma those_Some: "None \<notin> set xs \<Longrightarrow> \<exists>ys. those xs = Some ys \<and> map Some ys = xs"
proof (induction xs)
  case Nil
  show ?case by simp
next
  case (Cons a xs)
  then obtain y ys where "a = Some y" "those xs = Some ys" "map Some ys = xs"
    by (cases a) auto
  then show ?case by simp
qed

lemma image_Some_set: "map Some bs = xs \<Longrightarrow> Some ` set bs = set xs"
  by auto

lemma those_map_Some: "those xs = Some ys \<Longrightarrow> map Some ys = xs"
  by (induction xs arbitrary: ys) (auto split: option.splits)

lemma wcs_False:
  "write_class_signature trees h cls W fl = Inr (False, fl)"
  if "n \<in> set (base_names trees h cls)" "n \<notin> W"
proof (cases "dict_get trees cls")
  case None
  with that show ?thesis by (simp add: base_names_def)
next
  case (Some ps)
  with that show ?thesis
    by (auto simp: write_class_signature_def base_names_def Let_def)
qed

lemma wcs_True:
  assumes "cls \<in> fst ` set trees" "set (base_names trees h cls) \<subseteq> W" "None \<notin> W"
  shows "\<exists>sig. (\<forall>fl. write_class_signature trees h cls W fl
                        = Inr (True, fl @ sig # write_attributes h cls []))
           \<and> class_line sig (c_name (h cls))
           \<and> Some ` set (bases_of sig) = set (base_names trees h cls)"
proof -
  from assms(1) obtain ps where ps: "dict_get trees cls = Some ps"
    using dict_get_None [of trees cls] by auto
  let ?bn = "map (\<lambda>c. c_name (h c)) ps"
  from ps have bn: "base_names trees h cls = ?bn" by (simp add: base_names_def)
  with assms have "None \<notin> set ?bn" by auto
  from those_Some [OF this] obtain bs where bs: "those ?bn = Some bs" "map Some bs = ?bn"
    by blast
  show ?thesis
  proof (cases "ps = []")
    case True
    with ps bn have "write_class_signature trees h cls W fl
                 = Inr (True, fl @ WClass (c_name (h cls)) # write_attributes h cls [])" for fl
      by (simp add: write_class_signature_def write_attributes_snoc)
    with True bn show ?thesis
      by (intro exI [of _ "WClass (c_name (h cls))"]) simp
  next
    case False
    from bs(2) have "Some ` set bs = set ?bn"
      by (rule image_Some_set)
    moreover from False ps bn bs assms(2)
    have "write_class_signature trees h cls W fl
            = Inr (True, fl @ WClassBases (c_name (h cls)) bs # write_attributes h cls [])" for fl
      by (simp add: write_class_signature_def write_attributes_snoc subset_iff)
    ultimately show ?thesis using bn
      by (intro exI [of _ "WClassBases (c_name (h cls)) bs"]) simp
  qed
qed

lemma wcs_inv:
  assumes "write_class_signature trees h cls W fl = Inr (b, fl')"
  shows "(\<not> b \<and> fl' = fl) \<or>
         (b \<and> set (base_names trees h cls) \<subseteq> W \<and>
           (\<exists>sig. fl' = fl @ sig # write_attributes h cls []
              \<and> class_line sig (c_name (h cls))
              \<and> Some ` set (bases_of sig) = set (base_names trees h cls)))"
proof -
  from assms obtain ps where ps: "dict_get trees cls = Some ps"
    by (auto simp: write_class_signature_def split: option.splits)
  let ?bn = "map (\<lambda>c. c_name (h c)) ps"
  from ps have bn: "base_names trees h cls = ?bn" by (simp add: base_names_def)
  show ?thesis
  proof (cases "ps = []")
    case True
    with ps assms have "b" "fl' = fl @ WClass (c_name (h cls)) # write_attributes h cls []"
      by (auto simp: write_class_signature_def write_attributes_snoc)
    with True bn show ?thesis
      by (intro disjI2 conjI exI [of _ "WClass (c_name (h cls))"]) simp_all
  next
    case ne: False
    show ?thesis
    proof (cases "\<forall>p \<in> set ps. c_name (h p) \<in> W")
      case False
      with ne ps assms have "\<not> b" "fl' = fl"
        by (simp_all add: write_class_signature_def)
      then show ?thesis by simp
    next
      case True
      with ne ps assms obtain bs where bs: "those ?bn = Some bs"
        and r: "b" "fl' = write_attributes h cls (fl @ [WClassBases (c_name (h cls)) bs])"
        by (cases "those ?bn") (simp_all add: write_class_signature_def)
      from those_map_Some [OF bs] have "Some ` set bs = set ?bn"
        by (rule image_Some_set)
      moreover from True have "set ?bn \<subseteq> W" by auto
      ultimately show ?thesis using r bn
        by (intro disjI2 conjI exI [of _ "WClassBases (c_name (h cls)) bs"])
           (simp_all add: write_attributes_snoc)
    qed
  qed
qed

lemma first_pass_rule:
  assumes init: "P st"
    and committed: "\<And>c s fl. c \<in> set cs \<Longrightarrow> P s \<Longrightarrow> c_name (h c) \<notin> cls_written s \<Longrightarrow>
        write_class_signature trees h c (cls_written s) (f_out s) = Inr (True, fl) \<Longrightarrow>
        P (s\<lparr>f_out := fl, cls_written := insert (c_name (h c)) (cls_written s)\<rparr>)"
    and deferred: "\<And>c s fl. c \<in> set cs \<Longrightarrow> P s \<Longrightarrow> c_name (h c) \<notin> cls_written s \<Longrightarrow>
        write_class_signature trees h c (cls_written s) (f_out s) = Inr (False, fl) \<Longrightarrow>
        P (s\<lparr>f_out := fl, classes_deferred := classes_deferred s @ [c]\<rparr>)"
  shows "P (snd (first_pass trees h cs st))"
  using assms
proof (induction cs arbitrary: st)
  case Nil
  then show ?case by simp
next
  case (Cons c cs)
  show ?case
  proof (cases "c_name (h c) \<in> cls_written st")
    case True
    then have "first_pass trees h (c # cs) st = first_pass trees h cs st" by simp
    moreover have "P (snd (first_pass trees h cs st))"
      by (rule Cons.IH) (use Cons.prems in auto)
    ultimately show ?thesis by simp
  next
    case False
    show ?thesis
    proof (cases "write_class_signature trees h c (cls_written st) (f_out st)")
      case (Inl e)
      with False have "first_pass trees h (c # cs) st = (Inl e, st)" by simp
      with Cons.prems(1) show ?thesis by simp
    next
      case (Inr r)
      obtain b fl where r: "r = (b, fl)" by (cases r)
      show ?thesis
      proof (cases b)
        case True
        let ?s = "st\<lparr>f_out := fl, cls_written := insert (c_name (h c)) (cls_written st)\<rparr>"
        from True Inr r False
        have "first_pass trees h (c # cs) st = first_pass trees h cs ?s" by simp
        moreover have "P ?s"
          using Cons.prems(2) [of c st fl] Cons.prems(1) False Inr r True by simp
        then have "P (snd (first_pass trees h cs ?s))"
          by (rule Cons.IH) (use Cons.prems in auto)
        ultimately show ?thesis by simp
      next
        case bf: False
        let ?s = "st\<lparr>f_out := fl, classes_deferred := classes_deferred st @ [c]\<rparr>"
        from bf Inr r False
        have "first_pass trees h (c # cs) st = first_pass trees h cs ?s" by simp
        moreover have "P ?s"
          using Cons.prems(3) [of c st fl] Cons.prems(1) False Inr r bf by simp
        then have "P (snd (first_pass trees h cs ?s))"
          by (rule Cons.IH) (use Cons.prems in auto)
        ultimately show ?thesis by simp
      qed
    qed
  qed
qed

lemma second_pass_rule:
  assumes init: "P st"
    and step: "\<And>c s b fl. c \<in> set ds \<Longrightarrow> P s \<Longrightarrow>
        write_class_signature trees h c (cls_written s) (f_out s) = Inr (b, fl) \<Longrightarrow>
        P (s\<lparr>f_out := fl\<rparr>)"
  shows "P (snd (second_pass trees h ds st))"
  using assms
proof (induction ds arbitrary: st)
  case Nil
  then show ?case by simp
next
  case (Cons c ds)
  show ?case
  proof (cases "write_class_signature trees h c (cls_written st) (f_out st)")
    case (Inl e)
    then have "second_pass trees h (c # ds) st = (Inl e, st)" by simp
    with Cons.prems(1) show ?thesis by simp
  next
    case (Inr r)
    obtain b fl where r: "r = (b, fl)" by (cases r)
    let ?s = "st\<lparr>f_out := fl\<rparr>"
    from Inr r have "second_pass trees h (c # ds) st = second_pass trees h ds ?s" by simp
    moreover have "P ?s"
      using Cons.prems(2) [of c st b fl] Cons.prems(1) Inr r by simp
    then have "P (snd (second_pass trees h ds ?s))"
      by (rule Cons.IH) (use Cons.prems in auto)
    ultimately show ?thesis by simp
  qed
qed

lemma written_by_unsatisfied:
  assumes "\<not> set (base_names trees h d) \<subseteq> W"
  shows "written_by trees h W d = []"
proof -
  from assms obtain n where "n \<in> set (base_names trees h d)" "n \<notin> W" by auto
  from wcs_False [OF this, of "[]"] show ?thesis by (simp add: written_by_def)
qed

lemma written_by_satisfied:
  assumes "d \<in> fst ` set trees" "set (base_names trees h d) \<subseteq> W" "None \<notin> W"
  shows "\<exists>sig. written_by trees h W d = sig # write_attributes h d []
           \<and> (\<forall>fl. write_class_signature trees h d W fl = Inr (True, fl @ written_by trees h W d))
           \<and> class_line sig (c_name (h d))
           \<and> Some ` set (bases_of sig) = set (base_names trees h d)"
proof -
  from wcs_True [OF assms] obtain sig
    where s: "\<And>fl. write_class_signature trees h d W fl
                     = Inr (True, fl @ sig # write_attributes h d [])"
      and c: "class_line sig (c_name (h d))"
             "Some ` set (bases_of sig) = set (base_names trees h d)"
    by blast
  from s [of "[]"] have "written_by trees h W d = sig # write_attributes h d []"
    by (simp add: written_by_def)
  with s c show ?thesis by simp
qed

lemma wcs_written_by:
  assumes "d \<in> fst ` set trees" "None \<notin> W"
  shows "\<exists>b. write_class_signature trees h d W fl = Inr (b, fl @ written_by trees h W d)"
proof (cases "set (base_names trees h d) \<subseteq> W")
  case True
  from written_by_satisfied [OF assms(1) True assms(2)] show ?thesis by blast
next
  case False
  then obtain n where "n \<in> set (base_names trees h d)" "n \<notin> W" by auto
  from wcs_False [OF this, of fl] written_by_unsatisfied [OF False]
  have "write_class_signature trees h d W fl = Inr (False, fl @ written_by trees h W d)"
    by simp
  then show ?thesis ..
qed

lemma second_pass_result:
  assumes "set ds \<subseteq> fst ` set trees" "None \<notin> cls_written st"
  shows "second_pass trees h ds st =
     (Inr (), st\<lparr>f_out := f_out st @ concat (map (written_by trees h (cls_written st)) ds)\<rparr>)"
  using assms
proof (induction ds arbitrary: st)
  case Nil
  show ?case by simp
next
  case (Cons d ds)
  from Cons.prems have "d \<in> fst ` set trees" by simp
  from wcs_written_by [OF this Cons.prems(2)] obtain b
    where b: "write_class_signature trees h d (cls_written st) (f_out st)
                = Inr (b, f_out st @ written_by trees h (cls_written st) d)"
    by blast
  let ?s = "st\<lparr>f_out := f_out st @ written_by trees h (cls_written st) d\<rparr>"
  from b have "second_pass trees h (d # ds) st = second_pass trees h ds ?s" by simp
  also have "\<dots> = (Inr (), ?s\<lparr>f_out := f_out ?s
                        @ concat (map (written_by trees h (cls_written ?s)) ds)\<rparr>)"
    by (rule Cons.IH) (use Cons.prems in auto)
  finally show ?case by simp
qed

lemma second_pass_cls_written:
  "cls_written (snd (second_pass trees h ds st)) = cls_written st"
  by (rule second_pass_rule [where P = "\<lambda>s. cls_written s = cls_written st"]) simp_all

lemma second_pass_classes_deferred:
  "classes_deferred (snd (second_pass trees h ds st)) = classes_deferred st"
  by (rule second_pass_rule [where P = "\<lambda>s. classes_deferred s = classes_deferred st"]) simp_all

text \<open>
  Claim C9. The second pass adds no name to the written set, and leaves the deferred list as
  it is. So a class with a parent name that the first pass left outside the written set
  fails its check at whatever point of the second pass it is reached, also when that parent
  was written earlier in the second pass, and the call leaves the file unchanged.
\<close>

theorem second_pass_keeps_written:
  "cls_written (snd (second_pass trees h ds st)) = cls_written st
   \<and> classes_deferred (snd (second_pass trees h ds st)) = classes_deferred st
   \<and> (n \<in> set (base_names trees h d) \<and> n \<notin> cls_written st \<longrightarrow>
        write_class_signature trees h d (cls_written (snd (second_pass trees h pre st))) fl
          = Inr (False, fl))"
  using wcs_False [of n trees h d "cls_written st" fl]
  by (simp add: second_pass_cls_written second_pass_classes_deferred)

text \<open>
  Claim C9 at the model with a late parent: the second pass writes \<^verbatim>\<open>P\<close>, the written set
  stays without \<^verbatim>\<open>P\<close>, and the call for \<^verbatim>\<open>D\<close> after it returns \<^verbatim>\<open>False\<close> and writes nothing.
\<close>

theorem second_pass_keeps_written_witness:
  "Some ''P'' \<in> set (base_names late_parent_trees late_parent_heap 3)
   \<and> Some ''P'' \<notin> cls_written late_parent_state
   \<and> classes_deferred late_parent_state = [1, 3]
   \<and> f_out (snd (second_pass late_parent_trees late_parent_heap [1] late_parent_state))
       = f_out late_parent_state @ [WClassBases (Some ''P'') [''R'', ''Q''], WPass]
   \<and> cls_written (snd (second_pass late_parent_trees late_parent_heap [1, 3] late_parent_state))
       = cls_written late_parent_state
   \<and> write_class_signature late_parent_trees late_parent_heap 3
        (cls_written (snd (second_pass late_parent_trees late_parent_heap [1] late_parent_state)))
        (f_out (snd (second_pass late_parent_trees late_parent_heap [1] late_parent_state)))
       = Inr (False,
              f_out (snd (second_pass late_parent_trees late_parent_heap [1] late_parent_state)))"
proof -
  have h: "Some ''P'' \<in> set (base_names late_parent_trees late_parent_heap 3)
           \<and> Some ''P'' \<notin> cls_written late_parent_state"
    by code_simp
  have e: "classes_deferred late_parent_state = [1, 3]"
    "f_out (snd (second_pass late_parent_trees late_parent_heap [1] late_parent_state))
       = f_out late_parent_state @ [WClassBases (Some ''P'') [''R'', ''Q''], WPass]"
    by code_simp+
  from second_pass_keeps_written
         [of late_parent_trees late_parent_heap "[1, 3]" late_parent_state "Some ''P''" 3 "[1]"
             "f_out (snd (second_pass late_parent_trees late_parent_heap [1] late_parent_state))"]
       second_pass_keeps_written
         [of late_parent_trees late_parent_heap "[1, 3]" late_parent_state]
       h e
  show ?thesis by blast
qed

text \<open>
  Claim C1, as stated, fails. In the model with the root \<^verbatim>\<open>R\<close> and the classes \<^verbatim>\<open>A\<close> and \<^verbatim>\<open>B\<close> on a
  cycle, \<^verbatim>\<open>A\<close> and \<^verbatim>\<open>B\<close> are deferred by the first pass, and the second pass writes nothing
  for them: the call checks the parents again, and \<^verbatim>\<open>B\<close> is not in the written set.
\<close>

theorem second_pass_force_emit_counterexample:
  "classes_deferred cycle_state = [1, 2]
   \<and> base_names cycle_trees cycle_heap 1 = [Some ''R'', Some ''B'']
   \<and> second_pass cycle_trees cycle_heap (classes_deferred cycle_state) cycle_state
       = (Inr (), cycle_state)
   \<and> generate_body [] \<lparr>m_heap = cycle_heap, m_classes = [0, 1, 2]\<rparr>
       = (Inr (), [WHeader, WClass (Some ''R''), WPass])"
  by code_simp

text \<open>
  Claim C1, amended. The second pass goes through the deferred list once, in its order, and
  calls \<^verbatim>\<open>write_class_signature\<close> on each class with the written set as the first pass left
  it. The call checks the parents again: a class with a parent name outside the written set
  gets no output, and a class whose parent names are all written gets its signature line
  followed by the attribute lines of \<^verbatim>\<open>write_attributes\<close>, as in the first pass. (The classes
  are keys of the mapping and no written name is \<^verbatim>\<open>None\<close>, as is the case inside \<^verbatim>\<open>generate\<close>.)
\<close>

theorem second_pass_retries_with_check:
  assumes "set ds \<subseteq> fst ` set trees" "None \<notin> cls_written st"
  shows "second_pass trees h ds st =
           (Inr (), st\<lparr>f_out := f_out st
                        @ concat (map (written_by trees h (cls_written st)) ds)\<rparr>)
       \<and> (\<forall>d \<in> set ds. \<not> set (base_names trees h d) \<subseteq> cls_written st \<longrightarrow>
             written_by trees h (cls_written st) d = [])
       \<and> (\<forall>d \<in> set ds. set (base_names trees h d) \<subseteq> cls_written st \<longrightarrow>
             (\<exists>sig. written_by trees h (cls_written st) d = sig # write_attributes h d []
                \<and> class_line sig (c_name (h d))
                \<and> Some ` set (bases_of sig) = set (base_names trees h d)))"
proof (intro conjI ballI impI)
  show "second_pass trees h ds st =
           (Inr (), st\<lparr>f_out := f_out st
                        @ concat (map (written_by trees h (cls_written st)) ds)\<rparr>)"
    by (rule second_pass_result [OF assms])
next
  fix d assume "\<not> set (base_names trees h d) \<subseteq> cls_written st"
  then show "written_by trees h (cls_written st) d = []"
    by (rule written_by_unsatisfied)
next
  fix d assume "d \<in> set ds" "set (base_names trees h d) \<subseteq> cls_written st"
  with assms have "d \<in> fst ` set trees" by auto
  from written_by_satisfied [OF this \<open>set (base_names trees h d) \<subseteq> cls_written st\<close> assms(2)]
  show "\<exists>sig. written_by trees h (cls_written st) d = sig # write_attributes h d []
                \<and> class_line sig (c_name (h d))
                \<and> Some ` set (bases_of sig) = set (base_names trees h d)"
    by blast
qed

text \<open>
  The amended claim C1 at the model with a late parent: \<^verbatim>\<open>P\<close> is written by the second pass,
  \<^verbatim>\<open>D\<close> is not.
\<close>

theorem second_pass_retries_with_check_witness:
  "set [1, 3] \<subseteq> fst ` set late_parent_trees
   \<and> None \<notin> cls_written late_parent_state
   \<and> second_pass late_parent_trees late_parent_heap [1, 3] late_parent_state
       = (Inr (), late_parent_state
           \<lparr>f_out := f_out late_parent_state @ [WClassBases (Some ''P'') [''R'', ''Q''], WPass]\<rparr>)
   \<and> written_by late_parent_trees late_parent_heap (cls_written late_parent_state) 1
       = [WClassBases (Some ''P'') [''R'', ''Q''], WPass]
   \<and> written_by late_parent_trees late_parent_heap (cls_written late_parent_state) 3 = []"
proof -
  have h1: "set [1, 3] \<subseteq> fst ` set late_parent_trees" by code_simp
  have h2: "None \<notin> cls_written late_parent_state" by code_simp
  have e: "written_by late_parent_trees late_parent_heap (cls_written late_parent_state) 1
       = [WClassBases (Some ''P'') [''R'', ''Q''], WPass]"
    "written_by late_parent_trees late_parent_heap (cls_written late_parent_state) 3 = []"
    by code_simp+
  from second_pass_retries_with_check [OF h1 h2, of late_parent_heap] h1 h2 e
  show ?thesis by simp
qed

section \<open>The root finder and the traversal\<close>



lemma create_referenced_loop_ok:
  "\<forall>c \<in> set classes. \<exists>ms. get_class_extensions h c = Inr ms \<Longrightarrow>
   \<exists>R. create_referenced_loop h classes A = Inr R"
proof (induction classes arbitrary: A)
  case Nil
  show ?case by simp
next
  case (Cons c cs)
  then obtain ms where ms: "get_class_extensions h c = Inr ms" by auto
  with Cons show ?case by simp
qed

lemma create_referenced_ok:
  "extension_ends_owned h classes \<Longrightarrow>
   create_referenced h classes = Inr (referenced_of h classes)"
  using create_referenced_loop_ok [of classes h "{}"]
  by (auto simp: create_referenced_def referenced_of_def extension_ends_owned_iff)


lemma find_root_nodes_iff:
  "k \<in> set (find_root_nodes trees referenced) \<longleftrightarrow> (k, []) \<in> set trees \<and> k \<in> referenced"
  by (auto simp: find_root_nodes_def)

lemma neighbors_iff:
  "k \<in> set (neighbors trees node) \<longleftrightarrow> (\<exists>v. (k, v) \<in> set trees \<and> node \<in> set v)"
  by (auto simp: neighbors_def)

lemma bfs_loop_subset:
  "set (bfs_loop trees explored queue)
     \<subseteq> set explored \<union> set queue \<union> {k. \<exists>n. k \<in> set (neighbors trees n)}"
proof (induction trees explored queue rule: bfs_loop.induct)
  case (1 trees explored)
  show ?case by simp
next
  case (2 trees explored node queue)
  show ?case
  proof (cases "node \<in> set explored")
    case True
    with 2 show ?thesis by auto
  next
    case False
    with 2(1) have "set (bfs_loop trees (explored @ [node]) (queue @ neighbors trees node))
      \<subseteq> set (explored @ [node]) \<union> set (queue @ neighbors trees node)
          \<union> {k. \<exists>n. k \<in> set (neighbors trees n)}"
      by blast
    with False show ?thesis by auto
  qed
qed

lemma breadth_first_search_subset:
  "set (breadth_first_search trees roots)
     \<subseteq> set roots \<union> {k. \<exists>n. k \<in> set (neighbors trees n)}"
  using bfs_loop_subset [of trees "[]" roots] by (simp add: breadth_first_search_def)

lemma classes_found_subset: "set (classes_found h classes) \<subseteq> set classes"
proof -
  let ?T = "trees_of h classes"
  let ?R = "referenced_of h classes"
  have "set (find_root_nodes ?T ?R) \<subseteq> set classes"
    using trees_of_entry [of _ "[]" h classes] by (auto simp: find_root_nodes_iff)
  moreover have "{k. \<exists>n. k \<in> set (neighbors ?T n)} \<subseteq> set classes"
    using trees_of_entry [of _ _ h classes] by (auto simp: neighbors_iff)
  ultimately show ?thesis
    using breadth_first_search_subset [of ?T "find_root_nodes ?T ?R"]
    unfolding classes_found_def by blast
qed

section \<open>The order of the output file\<close>

lemma ordered_Nil: "ordered []"
  by (simp add: ordered_def)

lemma ordered_snoc:
  assumes "ordered fl" "\<forall>b \<in> set (bases_of x). Some b \<in> names_defined fl"
  shows "ordered (fl @ [x])"
  unfolding ordered_def
proof (intro allI impI)
  fix pre it post b
  assume eq: "fl @ [x] = pre @ it # post" and b: "b \<in> set (bases_of it)"
  show "\<exists>d \<in> set pre. class_line d (Some b) \<or> import_line d (Some b)"
  proof (cases post rule: rev_cases)
    case Nil
    with eq have "pre = fl" "it = x" by simp_all
    with assms(2) b show ?thesis by (auto simp: names_defined_def)
  next
    case (snoc post' y)
    with eq have "fl = pre @ it # post'" by simp
    with assms(1) b show ?thesis unfolding ordered_def by blast
  qed
qed

lemma ordered_append_plain:
  assumes "ordered fl" "\<forall>it \<in> set ys. bases_of it = []"
  shows "ordered (fl @ ys)"
  using assms(2)
proof (induction ys rule: rev_induct)
  case Nil
  from assms(1) show ?case by simp
next
  case (snoc y ys)
  then have "ordered (fl @ ys)" "bases_of y = []" by simp_all
  then have "ordered ((fl @ ys) @ [y])" by (intro ordered_snoc) simp_all
  then show ?case by simp
qed

lemma class_line_unique: "class_line it a \<Longrightarrow> class_line it b \<Longrightarrow> a = b"
  by (cases it) auto

lemma class_not_import: "class_line it a \<Longrightarrow> \<not> import_line it b"
  by (cases it) auto

text \<open>One call keeps the order property and the written names defined.\<close>

lemma wcs_ordered:
  assumes w: "write_class_signature trees h c W fl = Inr (b, fl')"
    and o: "ordered fl" and d: "W \<subseteq> names_defined fl"
  shows "ordered fl' \<and> W \<subseteq> names_defined fl' \<and> (b \<longrightarrow> c_name (h c) \<in> names_defined fl')"
proof -
  from wcs_inv [OF w] consider "\<not> b" "fl' = fl"
    | sig where "b" "set (base_names trees h c) \<subseteq> W"
        "fl' = fl @ sig # write_attributes h c []" "class_line sig (c_name (h c))"
        "Some ` set (bases_of sig) = set (base_names trees h c)"
    by blast
  then show ?thesis
  proof cases
    case 1
    with o d show ?thesis by simp
  next
    case 2
    from 2(2,5) d have "\<forall>x \<in> set (bases_of sig). Some x \<in> names_defined fl" by blast
    with o have "ordered (fl @ [sig])" by (rule ordered_snoc)
    then have "ordered ((fl @ [sig]) @ write_attributes h c [])"
      by (rule ordered_append_plain) (use write_attributes_plain in blast)
    with 2(3) have "ordered fl'" by simp
    moreover from 2(3) d have "W \<subseteq> names_defined fl'"
      by (auto simp: names_defined_def)
    moreover from 2(3,4) have "c_name (h c) \<in> names_defined fl'"
      by (auto simp: names_defined_def)
    ultimately show ?thesis by simp
  qed
qed

text \<open>What one call adds: a class line of the class itself, and lines that neither open a
  class nor import a name.\<close>

lemma wcs_items:
  assumes w: "write_class_signature trees h c W fl = Inr (b, fl')" and i: "it \<in> set fl'"
  shows "it \<in> set fl \<or> ((\<forall>n. class_line it n \<longrightarrow> n = c_name (h c)) \<and> (\<forall>n. \<not> import_line it n))"
proof -
  from wcs_inv [OF w] consider "fl' = fl"
    | sig where "fl' = fl @ sig # write_attributes h c []" "class_line sig (c_name (h c))"
    by blast
  then show ?thesis
  proof cases
    case 1
    with i show ?thesis by simp
  next
    case 2
    with i consider "it \<in> set fl" | "it = sig" | "it \<in> set (write_attributes h c [])" by auto
    then show ?thesis
    proof cases
      case 1
      then show ?thesis by simp
    next
      case 2
      with \<open>class_line sig (c_name (h c))\<close> show ?thesis
        using class_line_unique [of sig] class_not_import [of sig] by blast
    next
      case 3
      with write_attributes_plain [OF 3] show ?thesis by blast
    qed
  qed
qed

lemma first_pass_ordered:
  assumes "ordered (f_out st)" "cls_written st \<subseteq> names_defined (f_out st)"
  shows "ordered (f_out (snd (first_pass trees h cs st)))
       \<and> cls_written (snd (first_pass trees h cs st))
           \<subseteq> names_defined (f_out (snd (first_pass trees h cs st)))"
proof (rule first_pass_rule
    [where P = "\<lambda>s. ordered (f_out s) \<and> cls_written s \<subseteq> names_defined (f_out s)"])
  from assms show "ordered (f_out st) \<and> cls_written st \<subseteq> names_defined (f_out st)" by simp
next
  fix c s fl
  assume "ordered (f_out s) \<and> cls_written s \<subseteq> names_defined (f_out s)"
    and "write_class_signature trees h c (cls_written s) (f_out s) = Inr (True, fl)"
  from wcs_ordered [OF this(2)] this(1)
  show "ordered (f_out (s\<lparr>f_out := fl, cls_written := insert (c_name (h c)) (cls_written s)\<rparr>))
      \<and> cls_written (s\<lparr>f_out := fl, cls_written := insert (c_name (h c)) (cls_written s)\<rparr>)
          \<subseteq> names_defined
              (f_out (s\<lparr>f_out := fl, cls_written := insert (c_name (h c)) (cls_written s)\<rparr>))"
    by simp
next
  fix c s fl
  assume "ordered (f_out s) \<and> cls_written s \<subseteq> names_defined (f_out s)"
    and "write_class_signature trees h c (cls_written s) (f_out s) = Inr (False, fl)"
  from wcs_ordered [OF this(2)] this(1)
  show "ordered (f_out (s\<lparr>f_out := fl, classes_deferred := classes_deferred s @ [c]\<rparr>))
      \<and> cls_written (s\<lparr>f_out := fl, classes_deferred := classes_deferred s @ [c]\<rparr>)
          \<subseteq> names_defined
              (f_out (s\<lparr>f_out := fl, classes_deferred := classes_deferred s @ [c]\<rparr>))"
    by simp
qed

lemma second_pass_ordered:
  assumes "ordered (f_out st)" "cls_written st \<subseteq> names_defined (f_out st)"
  shows "ordered (f_out (snd (second_pass trees h ds st)))"
proof -
  have "ordered (f_out (snd (second_pass trees h ds st)))
       \<and> cls_written (snd (second_pass trees h ds st))
           \<subseteq> names_defined (f_out (snd (second_pass trees h ds st)))"
  proof (rule second_pass_rule
      [where P = "\<lambda>s. ordered (f_out s) \<and> cls_written s \<subseteq> names_defined (f_out s)"])
    from assms show "ordered (f_out st) \<and> cls_written st \<subseteq> names_defined (f_out st)" by simp
  next
    fix c s b fl
    assume "ordered (f_out s) \<and> cls_written s \<subseteq> names_defined (f_out s)"
      and "write_class_signature trees h c (cls_written s) (f_out s) = Inr (b, fl)"
    from wcs_ordered [OF this(2)] this(1)
    show "ordered (f_out (s\<lparr>f_out := fl\<rparr>))
        \<and> cls_written (s\<lparr>f_out := fl\<rparr>) \<subseteq> names_defined (f_out (s\<lparr>f_out := fl\<rparr>))"
      by simp
  qed
  then show ?thesis ..
qed

section \<open>The passes inside \<^verbatim>\<open>generate\<close>\<close>

lemma import_pass_result:
  "import_pass h us st =
     st\<lparr>f_out := f_out st @ map (\<lambda>c. WImport (c_name (h c))) us,
        cls_written := cls_written st \<union> (\<lambda>c. c_name (h c)) ` set us\<rparr>"
  by (induction us arbitrary: st) auto

lemma first_pass_no_None:
  assumes "None \<notin> cls_written st" "\<forall>c \<in> set cs. c_name (h c) \<noteq> None"
  shows "None \<notin> cls_written (snd (first_pass trees h cs st))"
  by (rule first_pass_rule [where P = "\<lambda>s. None \<notin> cls_written s"]) (use assms in auto)

lemma first_pass_deferred:
  "set (classes_deferred (snd (first_pass trees h cs st))) \<subseteq> set (classes_deferred st) \<union> set cs"
  by (rule first_pass_rule
        [where P = "\<lambda>s. set (classes_deferred s) \<subseteq> set (classes_deferred st) \<union> set cs"])
     auto

lemma first_pass_ok:
  assumes "set cs \<subseteq> fst ` set trees" "None \<notin> cls_written st"
    "\<forall>c \<in> set cs. c_name (h c) \<noteq> None"
  shows "fst (first_pass trees h cs st) = Inr ()"
  using assms
proof (induction cs arbitrary: st)
  case Nil
  show ?case by simp
next
  case (Cons c cs)
  show ?case
  proof (cases "c_name (h c) \<in> cls_written st")
    case True
    then have "first_pass trees h (c # cs) st = first_pass trees h cs st" by simp
    moreover have "fst (first_pass trees h cs st) = Inr ()"
      by (rule Cons.IH) (use Cons.prems in auto)
    ultimately show ?thesis by simp
  next
    case False
    from Cons.prems have "c \<in> fst ` set trees" by simp
    from wcs_written_by [OF this Cons.prems(2)] obtain b fl
      where w: "write_class_signature trees h c (cls_written st) (f_out st) = Inr (b, fl)"
      by blast
    show ?thesis
    proof (cases b)
      case True
      let ?s = "st\<lparr>f_out := fl, cls_written := insert (c_name (h c)) (cls_written st)\<rparr>"
      from True w False
      have "first_pass trees h (c # cs) st = first_pass trees h cs ?s" by simp
      moreover have "fst (first_pass trees h cs ?s) = Inr ()"
        by (rule Cons.IH) (use Cons.prems in auto)
      ultimately show ?thesis by simp
    next
      case bf: False
      let ?s = "st\<lparr>f_out := fl, classes_deferred := classes_deferred st @ [c]\<rparr>"
      from bf w False
      have "first_pass trees h (c # cs) st = first_pass trees h cs ?s" by simp
      moreover have "fst (first_pass trees h cs ?s) = Inr ()"
        by (rule Cons.IH) (use Cons.prems in auto)
      ultimately show ?thesis by simp
    qed
  qed
qed

text \<open>Every class line comes from a class handed to the pass, and no pass adds an import
  line.\<close>

lemma first_pass_lines:
  assumes "\<forall>it \<in> set (f_out st). (\<forall>n. class_line it n \<longrightarrow> n \<in> N) \<and> (\<forall>n. import_line it n \<longrightarrow> n \<in> I)"
    and "(\<lambda>c. c_name (h c)) ` set cs \<subseteq> N"
  shows "\<forall>it \<in> set (f_out (snd (first_pass trees h cs st))).
           (\<forall>n. class_line it n \<longrightarrow> n \<in> N) \<and> (\<forall>n. import_line it n \<longrightarrow> n \<in> I)"
proof (rule first_pass_rule
    [where P = "\<lambda>s. \<forall>it \<in> set (f_out s).
                   (\<forall>n. class_line it n \<longrightarrow> n \<in> N) \<and> (\<forall>n. import_line it n \<longrightarrow> n \<in> I)"])
  from assms(1)
  show "\<forall>it \<in> set (f_out st). (\<forall>n. class_line it n \<longrightarrow> n \<in> N) \<and> (\<forall>n. import_line it n \<longrightarrow> n \<in> I)" .
next
  fix c s fl
  assume c: "c \<in> set cs"
    and p: "\<forall>it \<in> set (f_out s). (\<forall>n. class_line it n \<longrightarrow> n \<in> N) \<and> (\<forall>n. import_line it n \<longrightarrow> n \<in> I)"
    and w: "write_class_signature trees h c (cls_written s) (f_out s) = Inr (True, fl)"
  from c assms(2) have n: "c_name (h c) \<in> N" by auto
  have "(\<forall>n. class_line it n \<longrightarrow> n \<in> N) \<and> (\<forall>n. import_line it n \<longrightarrow> n \<in> I)" if "it \<in> set fl" for it
    using wcs_items [OF w that] p n by blast
  then show "\<forall>it \<in> set (f_out (s\<lparr>f_out := fl,
                 cls_written := insert (c_name (h c)) (cls_written s)\<rparr>)).
           (\<forall>n. class_line it n \<longrightarrow> n \<in> N) \<and> (\<forall>n. import_line it n \<longrightarrow> n \<in> I)"
    by simp
next
  fix c s fl
  assume c: "c \<in> set cs"
    and p: "\<forall>it \<in> set (f_out s). (\<forall>n. class_line it n \<longrightarrow> n \<in> N) \<and> (\<forall>n. import_line it n \<longrightarrow> n \<in> I)"
    and w: "write_class_signature trees h c (cls_written s) (f_out s) = Inr (False, fl)"
  from c assms(2) have n: "c_name (h c) \<in> N" by auto
  have "(\<forall>n. class_line it n \<longrightarrow> n \<in> N) \<and> (\<forall>n. import_line it n \<longrightarrow> n \<in> I)" if "it \<in> set fl" for it
    using wcs_items [OF w that] p n by blast
  then show "\<forall>it \<in> set (f_out (s\<lparr>f_out := fl,
                 classes_deferred := classes_deferred s @ [c]\<rparr>)).
           (\<forall>n. class_line it n \<longrightarrow> n \<in> N) \<and> (\<forall>n. import_line it n \<longrightarrow> n \<in> I)"
    by simp
qed

lemma second_pass_lines:
  assumes "\<forall>it \<in> set (f_out st). (\<forall>n. class_line it n \<longrightarrow> n \<in> N) \<and> (\<forall>n. import_line it n \<longrightarrow> n \<in> I)"
    and "(\<lambda>c. c_name (h c)) ` set ds \<subseteq> N"
  shows "\<forall>it \<in> set (f_out (snd (second_pass trees h ds st))).
           (\<forall>n. class_line it n \<longrightarrow> n \<in> N) \<and> (\<forall>n. import_line it n \<longrightarrow> n \<in> I)"
proof (rule second_pass_rule
    [where P = "\<lambda>s. \<forall>it \<in> set (f_out s).
                   (\<forall>n. class_line it n \<longrightarrow> n \<in> N) \<and> (\<forall>n. import_line it n \<longrightarrow> n \<in> I)"])
  from assms(1)
  show "\<forall>it \<in> set (f_out st). (\<forall>n. class_line it n \<longrightarrow> n \<in> N) \<and> (\<forall>n. import_line it n \<longrightarrow> n \<in> I)" .
next
  fix c s b fl
  assume c: "c \<in> set ds"
    and p: "\<forall>it \<in> set (f_out s). (\<forall>n. class_line it n \<longrightarrow> n \<in> N) \<and> (\<forall>n. import_line it n \<longrightarrow> n \<in> I)"
    and w: "write_class_signature trees h c (cls_written s) (f_out s) = Inr (b, fl)"
  from c assms(2) have n: "c_name (h c) \<in> N" by auto
  have "(\<forall>n. class_line it n \<longrightarrow> n \<in> N) \<and> (\<forall>n. import_line it n \<longrightarrow> n \<in> I)" if "it \<in> set fl" for it
    using wcs_items [OF w that] p n by blast
  then show "\<forall>it \<in> set (f_out (s\<lparr>f_out := fl\<rparr>)).
           (\<forall>n. class_line it n \<longrightarrow> n \<in> N) \<and> (\<forall>n. import_line it n \<longrightarrow> n \<in> I)"
    by simp
qed

lemma emit_fail:
  assumes "\<not> extension_ends_owned h classes"
  shows "emit ud h classes fl
           = (Inl AttributeError, \<lparr>f_out = fl, cls_written = {}, classes_deferred = []\<rparr>)"
proof -
  from create_class_trees_fail [OF assms] create_class_trees_frame [of h classes]
  have "create_class_trees h classes = (Inl AttributeError, h)"
    by (metis prod.collapse)
  then show ?thesis by (simp add: emit_def)
qed

lemma emit_eq:
  assumes "extension_ends_owned h classes"
  shows "emit ud h classes fl =
     (case after_first_pass ud h classes fl of
        (Inl e, st1) \<Rightarrow> (Inl e, st1)
      | (Inr u, st1) \<Rightarrow> second_pass (trees_of h classes) h (classes_deferred st1) st1)"
proof -
  from create_class_trees_ok [OF assms] trees_of_ok [OF assms]
  have "create_class_trees h classes = (Inr (trees_of h classes), h)" by simp
  with create_referenced_ok [OF assms] show ?thesis
    by (simp add: emit_def after_first_pass_def classes_found_def Let_def)
qed

lemma classes_found_keys: "set (classes_found h classes) \<subseteq> fst ` set (trees_of h classes)"
proof -
  let ?T = "trees_of h classes"
  let ?R = "referenced_of h classes"
  have "set (find_root_nodes ?T ?R) \<subseteq> fst ` set ?T"
    by (force simp: find_root_nodes_iff)
  moreover have "{k. \<exists>n. k \<in> set (neighbors ?T n)} \<subseteq> fst ` set ?T"
    by (force simp: neighbors_iff)
  ultimately show ?thesis
    using breadth_first_search_subset [of ?T "find_root_nodes ?T ?R"]
    unfolding classes_found_def by blast
qed

lemma filter_uml_classes_names:
  "c \<in> set (filter_uml_classes ud h classes) \<Longrightarrow>
     c \<in> set classes \<and> (\<exists>n \<in> set ud. c_name (h c) = Some n)"
  by (auto simp: filter_uml_classes_def split: option.splits)

lemma after_first_pass_ok:
  assumes "\<forall>c \<in> set classes. c_name (h c) \<noteq> None"
  shows "fst (after_first_pass ud h classes fl) = Inr ()"
    and "None \<notin> cls_written (snd (after_first_pass ud h classes fl))"
proof -
  let ?st0 = "import_pass h (filter_uml_classes ud h classes)
                \<lparr>f_out = fl, cls_written = {}, classes_deferred = []\<rparr>"
  have "c_name (h c) \<noteq> None" if "c \<in> set (filter_uml_classes ud h classes)" for c
    using filter_uml_classes_names [OF that] by auto
  then have "None \<notin> (\<lambda>c. c_name (h c)) ` set (filter_uml_classes ud h classes)"
    by force
  then have w0: "None \<notin> cls_written ?st0"
    by (simp add: import_pass_result)
  note k = classes_found_keys [of h classes]
  have n: "\<forall>c \<in> set (classes_found h classes). c_name (h c) \<noteq> None"
    using assms classes_found_subset [of h classes] by blast
  show "fst (after_first_pass ud h classes fl) = Inr ()"
    unfolding after_first_pass_def by (rule first_pass_ok [OF k w0 n])
  show "None \<notin> cls_written (snd (after_first_pass ud h classes fl))"
    unfolding after_first_pass_def by (rule first_pass_no_None [OF w0 n])
qed

lemma after_first_pass_deferred:
  "set (classes_deferred (snd (after_first_pass ud h classes fl))) \<subseteq> set (classes_found h classes)"
  using first_pass_deferred
          [of "trees_of h classes" h "classes_found h classes"
              "import_pass h (filter_uml_classes ud h classes)
                 \<lparr>f_out = fl, cls_written = {}, classes_deferred = []\<rparr>"]
  by (simp add: after_first_pass_def import_pass_result)

lemma emit_ok:
  assumes "extension_ends_owned h classes" "\<forall>c \<in> set classes. c_name (h c) \<noteq> None"
  shows "fst (emit ud h classes fl) = Inr ()"
proof -
  obtain r st1 where a: "after_first_pass ud h classes fl = (r, st1)" by force
  from after_first_pass_ok [OF assms(2), of ud fl] a
  have r: "r = Inr ()" and w: "None \<notin> cls_written st1" by simp_all
  from after_first_pass_deferred [of ud h classes fl] a classes_found_keys [of h classes]
  have "set (classes_deferred st1) \<subseteq> fst ` set (trees_of h classes)"
    by simp
  from second_pass_result [OF this w] a r show ?thesis
    by (simp add: emit_eq [OF assms(1)])
qed

lemma emit_snd:
  "snd (emit ud h classes fl) = \<lparr>f_out = fl, cls_written = {}, classes_deferred = []\<rparr>
   \<or> snd (emit ud h classes fl) = snd (after_first_pass ud h classes fl)
   \<or> snd (emit ud h classes fl)
       = snd (second_pass (trees_of h classes) h
                (classes_deferred (snd (after_first_pass ud h classes fl)))
                (snd (after_first_pass ud h classes fl)))"
proof (cases "extension_ends_owned h classes")
  case False
  then show ?thesis by (simp add: emit_fail)
next
  case True
  obtain r st1 where a: "after_first_pass ud h classes fl = (r, st1)" by force
  then show ?thesis by (cases r) (simp_all add: emit_eq [OF True])
qed

lemma emit_ordered:
  assumes "ordered fl"
  shows "ordered (f_out (snd (emit ud h classes fl)))"
proof -
  let ?U = "filter_uml_classes ud h classes"
  let ?st0 = "import_pass h ?U \<lparr>f_out = fl, cls_written = {}, classes_deferred = []\<rparr>"
  let ?st1 = "snd (after_first_pass ud h classes fl)"
  have "ordered (fl @ map (\<lambda>c. WImport (c_name (h c))) ?U)"
    by (rule ordered_append_plain [OF assms]) auto
  then have o0: "ordered (f_out ?st0)" by (simp add: import_pass_result)
  have d0: "cls_written ?st0 \<subseteq> names_defined (f_out ?st0)"
    by (auto simp: import_pass_result names_defined_def intro!: bexI)
  from first_pass_ordered [OF o0 d0]
  have 1: "ordered (f_out ?st1)" "cls_written ?st1 \<subseteq> names_defined (f_out ?st1)"
    by (simp_all add: after_first_pass_def)
  from second_pass_ordered [OF 1] 1(1) assms emit_snd [of ud h classes fl]
  show ?thesis by auto
qed

lemma emit_lines:
  assumes "\<forall>it \<in> set fl. (\<forall>n. \<not> class_line it n) \<and> (\<forall>n. \<not> import_line it n)"
  shows "\<forall>it \<in> set (f_out (snd (emit ud h classes fl))).
           (\<forall>n. class_line it n \<longrightarrow> n \<in> (\<lambda>c. c_name (h c)) ` set (classes_found h classes))
         \<and> (\<forall>n. import_line it n
                \<longrightarrow> n \<in> (\<lambda>c. c_name (h c)) ` set (filter_uml_classes ud h classes))"
proof -
  let ?N = "(\<lambda>c. c_name (h c)) ` set (classes_found h classes)"
  let ?I = "(\<lambda>c. c_name (h c)) ` set (filter_uml_classes ud h classes)"
  let ?P = "\<lambda>s. \<forall>it \<in> set (f_out s).
              (\<forall>n. class_line it n \<longrightarrow> n \<in> ?N) \<and> (\<forall>n. import_line it n \<longrightarrow> n \<in> ?I)"
  let ?U = "filter_uml_classes ud h classes"
  let ?st0 = "import_pass h ?U \<lparr>f_out = fl, cls_written = {}, classes_deferred = []\<rparr>"
  let ?st1 = "snd (after_first_pass ud h classes fl)"
  from assms have pi: "?P \<lparr>f_out = fl, cls_written = {}, classes_deferred = []\<rparr>" by simp
  from assms have p0: "?P ?st0" by (auto simp: import_pass_result)
  have "?P (snd (first_pass (trees_of h classes) h (classes_found h classes) ?st0))"
    by (rule first_pass_lines [OF p0]) simp
  then have p1: "?P ?st1" by (simp add: after_first_pass_def)
  have "?P (snd (second_pass (trees_of h classes) h (classes_deferred ?st1) ?st1))"
    by (rule second_pass_lines [OF p1])
       (use after_first_pass_deferred [of ud h classes fl] in blast)
  with pi p1 emit_snd [of ud h classes fl] show ?thesis by metis
qed

section \<open>The whole of \<^verbatim>\<open>generate\<close>\<close>

lemma select_classes_truthy:
  "\<forall>c \<in> set cs. truthy (c_name (h c)) \<Longrightarrow> select_classes h cs = Inr (kept_classes h cs)"
proof (induction cs)
  case Nil
  show ?case by (simp add: kept_classes_def)
next
  case (Cons c cs)
  then obtain ch rest where n: "c_name (h c) = Some (ch # rest)"
    by (cases "c_name (h c)") (auto simp: neq_Nil_conv)
  from Cons have "select_classes h cs = Inr (kept_classes h cs)" by simp
  with n show ?case by (simp add: kept_classes_def)
qed

lemma select_classes_Inr:
  "select_classes h cs = Inr classes \<Longrightarrow>
     (\<forall>c \<in> set cs. truthy (c_name (h c))) \<and> classes = kept_classes h cs"
proof (induction cs arbitrary: classes)
  case Nil
  then show ?case by (simp add: kept_classes_def)
next
  case (Cons c cs)
  from Cons.prems obtain ch rest r where n: "c_name (h c) = Some (ch # rest)"
    and r: "select_classes h cs = Inr r"
    and c: "classes = (if ch \<noteq> CHR ''~'' then c # r else r)"
    by (auto split: option.splits list.splits sum.splits)
  from Cons.IH [OF r] n c show ?case by (simp add: kept_classes_def)
qed

lemma kept_classes_names:
  "c \<in> set (kept_classes h cs) \<Longrightarrow> c \<in> set cs \<and> \<not> tilde_name (c_name (h c))"
  by (simp add: kept_classes_def)

lemma truthy_not_None: "truthy n \<Longrightarrow> n \<noteq> None"
  by (cases n) auto

lemma generate_body_Inl:
  "select_classes h cs = Inl e \<Longrightarrow>
     generate_body ud \<lparr>m_heap = h, m_classes = cs\<rparr> = (Inl e, [WHeader])"
  by (simp add: generate_body_def)

lemma generate_body_Inr:
  assumes "select_classes h cs = Inr classes"
  shows "generate_body ud \<lparr>m_heap = h, m_classes = cs\<rparr>
           = (fst (emit ud h classes [WHeader]), f_out (snd (emit ud h classes [WHeader])))"
  using assms by (cases "emit ud h classes [WHeader]") (simp add: generate_body_def)

lemma generate_body_ok:
  assumes "select_classes h cs = Inr classes" "extension_ends_owned h classes"
  shows "generate_body ud \<lparr>m_heap = h, m_classes = cs\<rparr>
           = (Inr (), f_out (snd (emit ud h classes [WHeader])))"
proof -
  from select_classes_Inr [OF assms(1)] kept_classes_names [of _ h cs]
  have "\<forall>c \<in> set classes. c_name (h c) \<noteq> None"
    using truthy_not_None by blast
  from emit_ok [OF assms(2) this, of ud "[WHeader]"] generate_body_Inr [OF assms(1), of ud]
  show ?thesis by simp
qed

lemma generate_body_fail:
  assumes "select_classes h cs = Inr classes" "\<not> extension_ends_owned h classes"
  shows "generate_body ud \<lparr>m_heap = h, m_classes = cs\<rparr> = (Inl AttributeError, [WHeader])"
  using generate_body_Inr [OF assms(1), of ud] emit_fail [OF assms(2), of ud "[WHeader]"]
  by simp

lemma ordered_header: "ordered [WHeader]"
  using ordered_snoc [OF ordered_Nil, of WHeader] by simp

lemma generate_body_ordered: "ordered (snd (generate_body ud \<lparr>m_heap = h, m_classes = cs\<rparr>))"
proof (cases "select_classes h cs")
  case (Inl e)
  then show ?thesis by (simp add: generate_body_Inl ordered_header)
next
  case (Inr classes)
  then show ?thesis by (simp add: generate_body_Inr emit_ordered [OF ordered_header])
qed

lemma first_pass_prefix: "\<exists>ext. f_out (snd (first_pass trees h cs st)) = f_out st @ ext"
proof (rule first_pass_rule [where P = "\<lambda>s. \<exists>ext. f_out s = f_out st @ ext"])
  show "\<exists>ext. f_out st = f_out st @ ext" by simp
next
  fix c s fl
  assume "\<exists>ext. f_out s = f_out st @ ext"
    and "write_class_signature trees h c (cls_written s) (f_out s) = Inr (True, fl)"
  with wcs_inv [OF this(2)]
  show "\<exists>ext. f_out (s\<lparr>f_out := fl, cls_written := insert (c_name (h c)) (cls_written s)\<rparr>)
               = f_out st @ ext"
    by auto
next
  fix c s fl
  assume "\<exists>ext. f_out s = f_out st @ ext"
    and "write_class_signature trees h c (cls_written s) (f_out s) = Inr (False, fl)"
  with wcs_inv [OF this(2)]
  show "\<exists>ext. f_out (s\<lparr>f_out := fl, classes_deferred := classes_deferred s @ [c]\<rparr>)
               = f_out st @ ext"
    by auto
qed

lemma second_pass_prefix: "\<exists>ext. f_out (snd (second_pass trees h ds st)) = f_out st @ ext"
proof (rule second_pass_rule [where P = "\<lambda>s. \<exists>ext. f_out s = f_out st @ ext"])
  show "\<exists>ext. f_out st = f_out st @ ext" by simp
next
  fix c s b fl
  assume "\<exists>ext. f_out s = f_out st @ ext"
    and "write_class_signature trees h c (cls_written s) (f_out s) = Inr (b, fl)"
  with wcs_inv [OF this(2)]
  show "\<exists>ext. f_out (s\<lparr>f_out := fl\<rparr>) = f_out st @ ext"
    by auto
qed

lemma emit_prefix: "\<exists>ext. f_out (snd (emit ud h classes fl)) = fl @ ext"
proof -
  let ?st1 = "snd (after_first_pass ud h classes fl)"
  from first_pass_prefix
         [of "trees_of h classes" h "classes_found h classes"
             "import_pass h (filter_uml_classes ud h classes)
                \<lparr>f_out = fl, cls_written = {}, classes_deferred = []\<rparr>"]
  obtain e1 where 1: "f_out ?st1 = fl @ e1"
    by (auto simp: after_first_pass_def import_pass_result)
  from second_pass_prefix [of "trees_of h classes" h "classes_deferred ?st1" ?st1]
  obtain e2 where "f_out (snd (second_pass (trees_of h classes) h
                     (classes_deferred ?st1) ?st1)) = f_out ?st1 @ e2"
    by blast
  with 1 emit_snd [of ud h classes fl] show ?thesis by auto
qed

lemma generate_body_header:
  assumes "generate_body ud \<lparr>m_heap = h, m_classes = cs\<rparr> = (r, fl)"
  shows "\<exists>ext. fl = WHeader # ext \<and> (r \<noteq> Inr () \<longrightarrow> ext = [])"
proof (cases "select_classes h cs")
  case (Inl e)
  with assms show ?thesis by (auto simp: generate_body_Inl)
next
  case (Inr classes)
  show ?thesis
  proof (cases "extension_ends_owned h classes")
    case False
    from generate_body_fail [OF Inr False, of ud] assms show ?thesis by auto
  next
    case True
    from emit_prefix [of ud h classes "[WHeader]"] assms generate_body_ok [OF Inr True, of ud]
    show ?thesis by auto
  qed
qed

text \<open>
  Claim C3. In the file that \<^verbatim>\<open>generate\<close> writes, every parent name of a class line is
  defined by an earlier write, a class line or an import line of that name; and a call of
  \<^verbatim>\<open>write_class_signature\<close> that writes (it returns \<^verbatim>\<open>True\<close>) found every name of the
  combined parent list in the written set. This holds for every model, with or without
  cycles.
\<close>

theorem parents_precede_in_output:
  "(generate_body ud \<lparr>m_heap = h, m_classes = cs\<rparr> = (r, pre @ WClassBases n bs # post)
      \<and> b \<in> set bs
      \<longrightarrow> (\<exists>d \<in> set pre. class_line d (Some b) \<or> import_line d (Some b)))
   \<and> (write_class_signature trees h cls W fl = Inr (True, fl')
      \<longrightarrow> set (base_names trees h cls) \<subseteq> W)"
proof (intro conjI impI)
  assume a: "generate_body ud \<lparr>m_heap = h, m_classes = cs\<rparr> = (r, pre @ WClassBases n bs # post)
      \<and> b \<in> set bs"
  with generate_body_ordered [of ud h cs]
  have "ordered (pre @ WClassBases n bs # post)" by simp
  with a show "\<exists>d \<in> set pre. class_line d (Some b) \<or> import_line d (Some b)"
    unfolding ordered_def by (metis bases_of.simps(1))
next
  assume "write_class_signature trees h cls W fl = Inr (True, fl')"
  from wcs_inv [OF this] show "set (base_names trees h cls) \<subseteq> W" by simp
qed

text \<open>
  Claim C3 at the chain \<^verbatim>\<open>M\<close>, \<^verbatim>\<open>Y\<close>, \<^verbatim>\<open>Z\<close>: the parent \<^verbatim>\<open>Y\<close> of \<^verbatim>\<open>Z\<close> is defined before the line
  of \<^verbatim>\<open>Z\<close>.
\<close>

theorem parents_precede_in_output_witness:
  "generate_body [''M''] \<lparr>m_heap = chain_heap, m_classes = [0, 1, 2]\<rparr>
     = (Inr (), [WHeader, WImport (Some ''M''), WClassBases (Some ''Y'') [''M''],
                 WAttribute (Some ''label'') (Some ''str'')]
                @ WClassBases (Some ''Z'') [''Y''] # [WPass])
   \<and> ''Y'' \<in> set [''Y'']
   \<and> (\<exists>d \<in> set [WHeader, WImport (Some ''M''), WClassBases (Some ''Y'') [''M''],
                  WAttribute (Some ''label'') (Some ''str'')].
         class_line d (Some ''Y'') \<or> import_line d (Some ''Y''))
   \<and> write_class_signature (trees_of chain_heap [0, 1, 2]) chain_heap 2
        {Some ''M'', Some ''Y''} []
       = Inr (True, [WClassBases (Some ''Z'') [''Y''], WPass])
   \<and> set (base_names (trees_of chain_heap [0, 1, 2]) chain_heap 2)
       \<subseteq> {Some ''M'', Some ''Y''}"
proof -
  have g: "generate_body [''M''] \<lparr>m_heap = chain_heap, m_classes = [0, 1, 2]\<rparr>
     = (Inr (), [WHeader, WImport (Some ''M''), WClassBases (Some ''Y'') [''M''],
                 WAttribute (Some ''label'') (Some ''str'')]
                @ WClassBases (Some ''Z'') [''Y''] # [WPass])"
    by code_simp
  have w: "write_class_signature (trees_of chain_heap [0, 1, 2]) chain_heap 2
        {Some ''M'', Some ''Y''} []
       = Inr (True, [WClassBases (Some ''Z'') [''Y''], WPass])"
    by code_simp
  from parents_precede_in_output
         [of "[''M'']" chain_heap "[0, 1, 2]" "Inr ()"
             "[WHeader, WImport (Some ''M''), WClassBases (Some ''Y'') [''M''],
               WAttribute (Some ''label'') (Some ''str'')]"
             "Some ''Z''" "[''Y'']" "[WPass]" "''Y''"
             "trees_of chain_heap [0, 1, 2]" 2 "{Some ''M'', Some ''Y''}" "[]"
             "[WClassBases (Some ''Z'') [''Y''], WPass]"]
       g w
  show ?thesis by simp
qed




text \<open>
  Claim C10. When every class of the loaded model has a non-empty name, line 201 keeps
  exactly the classes whose name does not start with a tilde, and \<^verbatim>\<open>generate\<close> runs to its end
  unless line 203 raises. A class whose name starts with a tilde is no key of the mapping
  and is not found by the traversal, and no class line, import line or parent list of the
  output carries a name that starts with a tilde.
\<close>

theorem tilde_classes_removed:
  assumes "\<forall>c \<in> set cs. truthy (c_name (h c))"
  shows "select_classes h cs = Inr (kept_classes h cs)
       \<and> (extension_ends_owned h (kept_classes h cs)
            \<longrightarrow> fst (generate_body ud \<lparr>m_heap = h, m_classes = cs\<rparr>) = Inr ())
       \<and> (\<forall>X. tilde_name (c_name (h X)) \<longrightarrow>
             X \<notin> set (kept_classes h cs)
             \<and> X \<notin> fst ` set (trees_of h (kept_classes h cs))
             \<and> (\<forall>trees. fst (create_class_trees h (kept_classes h cs)) = Inr trees
                    \<longrightarrow> X \<notin> fst ` set trees)
             \<and> X \<notin> set (classes_found h (kept_classes h cs)))
       \<and> (\<forall>it \<in> set (snd (generate_body ud \<lparr>m_heap = h, m_classes = cs\<rparr>)).
             (\<forall>n. class_line it n \<or> import_line it n \<longrightarrow> \<not> tilde_name n)
             \<and> (\<forall>b \<in> set (bases_of it). \<not> tilde_name (Some b)))"
proof -
  let ?K = "kept_classes h cs"
  let ?out = "snd (generate_body ud \<lparr>m_heap = h, m_classes = cs\<rparr>)"
  from select_classes_truthy [OF assms] have s: "select_classes h cs = Inr ?K" .
  have ok: "fst (generate_body ud \<lparr>m_heap = h, m_classes = cs\<rparr>) = Inr ()"
    if "extension_ends_owned h ?K"
    using generate_body_ok [OF s that, of ud] by simp
  from generate_body_Inr [OF s, of ud]
  have g: "?out = f_out (snd (emit ud h ?K [WHeader]))" by simp
  have k: "\<not> tilde_name (c_name (h c))" if "c \<in> set ?K" for c
    using kept_classes_names [OF that] by simp
  have x: "X \<notin> set ?K \<and> X \<notin> fst ` set (trees_of h ?K)
           \<and> (\<forall>trees. fst (create_class_trees h ?K) = Inr trees \<longrightarrow> X \<notin> fst ` set trees)
           \<and> X \<notin> set (classes_found h ?K)"
    if "tilde_name (c_name (h X))" for X
  proof -
    from that k [of X] have 1: "X \<notin> set ?K" by blast
    with trees_of_keys [of h ?K] have 2: "X \<notin> fst ` set (trees_of h ?K)" by blast
    from 2 create_class_trees_Inr(2) [of h ?K]
    have 3: "\<forall>trees. fst (create_class_trees h ?K) = Inr trees \<longrightarrow> X \<notin> fst ` set trees"
      by metis
    from 1 classes_found_subset [of h ?K] have 4: "X \<notin> set (classes_found h ?K)" by blast
    from 1 2 3 4 show ?thesis by blast
  qed
  have l: "\<forall>it \<in> set (f_out (snd (emit ud h ?K [WHeader]))).
           (\<forall>n. class_line it n \<longrightarrow> n \<in> (\<lambda>c. c_name (h c)) ` set (classes_found h ?K))
         \<and> (\<forall>n. import_line it n \<longrightarrow> n \<in> (\<lambda>c. c_name (h c)) ` set (filter_uml_classes ud h ?K))"
    by (rule emit_lines) simp
  have d: "\<not> tilde_name n" if "it \<in> set ?out" "class_line it n \<or> import_line it n" for it n
  proof -
    from that(1) g have m: "it \<in> set (f_out (snd (emit ud h ?K [WHeader])))" by simp
    from that(2) l m
    have "n \<in> (\<lambda>c. c_name (h c)) ` set (classes_found h ?K)
        \<or> n \<in> (\<lambda>c. c_name (h c)) ` set (filter_uml_classes ud h ?K)"
      by blast
    then obtain c where "c \<in> set ?K" "c_name (h c) = n"
      using classes_found_subset [of h ?K] filter_uml_classes_names [of _ ud h ?K] by blast
    with k show ?thesis by blast
  qed
  have b: "\<not> tilde_name (Some b)" if "it \<in> set ?out" "b \<in> set (bases_of it)" for it b
  proof -
    from that(1) obtain pre post where e: "?out = pre @ it # post"
      by (auto simp: in_set_conv_decomp)
    from generate_body_ordered [of ud h cs] e that(2)
    obtain dd where "dd \<in> set pre" "class_line dd (Some b) \<or> import_line dd (Some b)"
      unfolding ordered_def by metis
    with e d [of dd "Some b"] show ?thesis by simp
  qed
  from s ok x d b show ?thesis by (simp del: tilde_name.simps)
qed

text \<open>
  Claim C10 at a model with the class \<^verbatim>\<open>~T\<close>.
\<close>

theorem tilde_classes_removed_witness:
  "truthy (c_name (tilde_heap 0)) \<and> truthy (c_name (tilde_heap 1)) \<and> truthy (c_name (tilde_heap 2))
   \<and> tilde_name (c_name (tilde_heap 1))
   \<and> extension_ends_owned tilde_heap [0, 2]
   \<and> select_classes tilde_heap [0, 1, 2] = Inr [0, 2]
   \<and> generate_body [] \<lparr>m_heap = tilde_heap, m_classes = [0, 1, 2]\<rparr>
       = (Inr (), [WHeader, WClass (Some ''R''), WPass, WClassBases (Some ''C'') [''R''], WPass])
   \<and> 1 \<notin> fst ` set (trees_of tilde_heap [0, 2])
   \<and> 1 \<notin> set (classes_found tilde_heap [0, 2])
   \<and> \<not> (\<exists>it \<in> set (snd (generate_body [] \<lparr>m_heap = tilde_heap, m_classes = [0, 1, 2]\<rparr>)).
           class_line it (Some ''~T'') \<or> import_line it (Some ''~T'')
           \<or> ''~T'' \<in> set (bases_of it))"
proof -
  have n: "truthy (c_name (tilde_heap 0))" "truthy (c_name (tilde_heap 1))"
    "truthy (c_name (tilde_heap 2))" "tilde_name (c_name (tilde_heap 1))"
    "tilde_name (Some ''~T'')"
    by code_simp+
  from n have a: "\<forall>c \<in> set [0, 1, 2]. truthy (c_name (tilde_heap c))" by simp
  have k: "kept_classes tilde_heap [0, 1, 2] = [0, 2]" by code_simp
  have e: "extension_ends_owned tilde_heap [0, 2]" by code_simp
  have g: "snd (generate_body [] \<lparr>m_heap = tilde_heap, m_classes = [0, 1, 2]\<rparr>)
       = [WHeader, WClass (Some ''R''), WPass, WClassBases (Some ''C'') [''R''], WPass]"
    by code_simp
  note t = tilde_classes_removed [OF a, of "[]", unfolded k]
  from t e have s: "select_classes tilde_heap [0, 1, 2] = Inr [0, 2]"
    and r: "fst (generate_body [] \<lparr>m_heap = tilde_heap, m_classes = [0, 1, 2]\<rparr>) = Inr ()"
    by simp_all
  from r g have b: "generate_body [] \<lparr>m_heap = tilde_heap, m_classes = [0, 1, 2]\<rparr>
       = (Inr (), [WHeader, WClass (Some ''R''), WPass, WClassBases (Some ''C'') [''R''], WPass])"
    by (metis prod.collapse)
  from t n(4) have x: "1 \<notin> fst ` set (trees_of tilde_heap [0, 2])"
    "1 \<notin> set (classes_found tilde_heap [0, 2])"
    by blast+
  from t n(5)
  have o: "\<not> (\<exists>it \<in> set (snd (generate_body [] \<lparr>m_heap = tilde_heap, m_classes = [0, 1, 2]\<rparr>)).
           class_line it (Some ''~T'') \<or> import_line it (Some ''~T'')
           \<or> ''~T'' \<in> set (bases_of it))"
    by blast
  from n e s b x o show ?thesis by blast
qed

text \<open>
  Claim C2, as stated, fails. Two classes \<^verbatim>\<open>A\<close> and \<^verbatim>\<open>B\<close> generalize each other. After the
  deferred pass the written set is empty, so the parent \<^verbatim>\<open>B\<close> of \<^verbatim>\<open>A\<close> is absent from it; yet
  \<^verbatim>\<open>generate\<close> ends without an error, and the output file is written: it holds the header.
\<close>

theorem generate_no_cycle_check_counterexample:
  "c_general (mutual_heap 0) = [1] \<and> c_general (mutual_heap 1) = [0]
   \<and> base_names (trees_of mutual_heap [0, 1]) mutual_heap 0 = [Some ''B'']
   \<and> Some ''B'' \<notin> cls_written (snd (emit [] mutual_heap [0, 1] [WHeader]))
   \<and> fst (generate [] mutual_world ''model.gaphor'' ''out.py'' None) = Inr ()
   \<and> files (snd (generate [] mutual_world ''model.gaphor'' ''out.py'' None)) ''out.py''
       = Some (TextFile [WHeader])"
proof -
  have c: "c_general (mutual_heap 0) = [1] \<and> c_general (mutual_heap 1) = [0]
     \<and> base_names (trees_of mutual_heap [0, 1]) mutual_heap 0 = [Some ''B'']
     \<and> Some ''B'' \<notin> cls_written (snd (emit [] mutual_heap [0, 1] [WHeader]))"
    by code_simp
  have b: "generate_body [] \<lparr>m_heap = mutual_heap, m_classes = [0, 1]\<rparr> = (Inr (), [WHeader])"
    by code_simp
  have m: "files mutual_world ''model.gaphor''
     = Some (ModelFile \<lparr>m_heap = mutual_heap, m_classes = [0, 1]\<rparr>)"
    by (simp add: mutual_world_def)
  have u: "''out.py'' \<notin> unwritable mutual_world" by (simp add: mutual_world_def)
  have "generate [] mutual_world ''model.gaphor'' ''out.py'' None
          = (Inr (), mutual_world\<lparr>files := (files mutual_world)
                                    (''out.py'' \<mapsto> TextFile [WHeader])\<rparr>)"
    unfolding generate_def m using u b by simp
  with c show ?thesis by simp
qed

text \<open>
  Claim C2, amended. \<^verbatim>\<open>generate\<close> has no check for unresolved parents after the deferred pass.
  Whenever the passes are reached, it ends without an error and leaves the output file,
  starting with the header, at the destination, whatever parents remain unresolved. The
  passes are reached when the model loads, the destination can be opened, every class has a
  non-empty name (line 201 raises nothing) and every end named \<^verbatim>\<open>baseClass\<close> of a kept class
  belongs to an association with an owned end (line 203 raises nothing).
\<close>

theorem generate_completes:
  assumes "files w filename = Some (ModelFile m)"
    and "outfile \<notin> unwritable w"
    and "\<forall>c \<in> set (m_classes m). truthy (c_name (m_heap m c))"
    and "extension_ends_owned (m_heap m) (kept_classes (m_heap m) (m_classes m))"
  shows "\<exists>fl. generate ud w filename outfile overridesfile
                = (Inr (), w\<lparr>files := (files w)(outfile \<mapsto> TextFile (WHeader # fl))\<rparr>)"
proof -
  obtain r out where g: "generate_body ud m = (r, out)" by force
  have m: "m = \<lparr>m_heap = m_heap m, m_classes = m_classes m\<rparr>" by simp
  from select_classes_truthy [OF assms(3)]
  have "select_classes (m_heap m) (m_classes m)
          = Inr (kept_classes (m_heap m) (m_classes m))" .
  from generate_body_ok [OF this assms(4), of ud] g m have r: "r = Inr ()" by simp
  from generate_body_header [of ud "m_heap m" "m_classes m" r out] g m
  obtain fl where "out = WHeader # fl" by auto
  with g r assms(1,2)
  have "generate ud w filename outfile overridesfile
          = (Inr (), w\<lparr>files := (files w)(outfile \<mapsto> TextFile (WHeader # fl))\<rparr>)"
    by (simp add: generate_def)
  then show ?thesis ..
qed

text \<open>
  The amended claim C2 at the two classes that generalize each other.
\<close>

theorem generate_completes_witness:
  "files mutual_world ''model.gaphor''
     = Some (ModelFile \<lparr>m_heap = mutual_heap, m_classes = [0, 1]\<rparr>)
   \<and> ''out.py'' \<notin> unwritable mutual_world
   \<and> truthy (c_name (mutual_heap 0)) \<and> truthy (c_name (mutual_heap 1))
   \<and> extension_ends_owned mutual_heap (kept_classes mutual_heap [0, 1])
   \<and> (\<exists>fl. generate [] mutual_world ''model.gaphor'' ''out.py'' None
              = (Inr (), mutual_world\<lparr>files := (files mutual_world)
                                        (''out.py'' \<mapsto> TextFile (WHeader # fl))\<rparr>))"
proof -
  have m: "files mutual_world ''model.gaphor''
     = Some (ModelFile \<lparr>m_heap = mutual_heap, m_classes = [0, 1]\<rparr>)"
    by (simp add: mutual_world_def)
  have u: "''out.py'' \<notin> unwritable mutual_world" by (simp add: mutual_world_def)
  have n: "truthy (c_name (mutual_heap 0))" "truthy (c_name (mutual_heap 1))"
    by code_simp+
  from n have a: "\<forall>c \<in> set (m_classes \<lparr>m_heap = mutual_heap, m_classes = [0, 1]\<rparr>).
      truthy (c_name (m_heap \<lparr>m_heap = mutual_heap, m_classes = [0, 1]\<rparr> c))"
    by simp
  have e: "extension_ends_owned mutual_heap (kept_classes mutual_heap [0, 1])"
    by code_simp
  then have e': "extension_ends_owned (m_heap \<lparr>m_heap = mutual_heap, m_classes = [0, 1]\<rparr>)
      (kept_classes (m_heap \<lparr>m_heap = mutual_heap, m_classes = [0, 1]\<rparr>)
         (m_classes \<lparr>m_heap = mutual_heap, m_classes = [0, 1]\<rparr>))"
    by simp
  from generate_completes [OF m u a e', of "[]" None] m u n e show ?thesis by blast
qed

text \<open>
  Claim C4, as stated, fails. For a model whose class has the empty name, indexing the name
  raises \<^verbatim>\<open>IndexError\<close> after the output file was opened and the header written: the file
  of the earlier run is replaced by the header alone.
\<close>

theorem generate_not_atomic_counterexample:
  "files unnamed_world ''out.py'' = Some (TextFile [WHeader, WClass (Some ''Old''), WPass])
   \<and> fst (generate [] unnamed_world ''model.gaphor'' ''out.py'' None) = Inl IndexError
   \<and> files (snd (generate [] unnamed_world ''model.gaphor'' ''out.py'' None)) ''out.py''
       = Some (TextFile [WHeader])
   \<and> file_text [WHeader] = header"
proof -
  have o: "files unnamed_world ''out.py''
             = Some (TextFile [WHeader, WClass (Some ''Old''), WPass])"
    by (simp add: unnamed_world_def)
  have b: "generate_body [] \<lparr>m_heap = (\<lambda>_. no_class) (0 := plain_class [] []), m_classes = [0]\<rparr>
             = (Inl IndexError, [WHeader])"
    by code_simp
  have m: "files unnamed_world ''model.gaphor''
       = Some (ModelFile \<lparr>m_heap = (\<lambda>_. no_class) (0 := plain_class [] []), m_classes = [0]\<rparr>)"
    by (simp add: unnamed_world_def)
  have u: "''out.py'' \<notin> unwritable unnamed_world" by (simp add: unnamed_world_def)
  have "generate [] unnamed_world ''model.gaphor'' ''out.py'' None
          = (Inl IndexError, unnamed_world\<lparr>files := (files unnamed_world)
                                             (''out.py'' \<mapsto> TextFile [WHeader])\<rparr>)"
    unfolding generate_def m using u b by simp
  with o show ?thesis by (simp add: file_text_def)
qed

text \<open>
  Claim C4, amended. \<^verbatim>\<open>generate\<close> writes to the destination itself. When the model cannot be
  loaded, or the destination cannot be opened, the files are as before. Otherwise the
  destination is created or emptied and the header is written first, so after the run the
  destination holds a file that starts with the header, whether the run succeeded or not;
  after a failure it holds the header alone.
\<close>

theorem generate_writes_in_place:
  "((\<forall>m. files w filename \<noteq> Some (ModelFile m))
      \<longrightarrow> generate ud w filename outfile overridesfile = (Inl ModelLoadFailure, w))
   \<and> (files w filename = Some (ModelFile m) \<and> outfile \<in> unwritable w
      \<longrightarrow> generate ud w filename outfile overridesfile = (Inl OSError, w))
   \<and> (files w filename = Some (ModelFile m) \<and> outfile \<notin> unwritable w
      \<longrightarrow> (\<exists>r fl. generate ud w filename outfile overridesfile
                   = (r, w\<lparr>files := (files w)(outfile \<mapsto> TextFile (WHeader # fl))\<rparr>)
              \<and> (r \<noteq> Inr () \<longrightarrow> fl = [])))"
proof (intro conjI impI)
  assume "\<forall>m. files w filename \<noteq> Some (ModelFile m)"
  then show "generate ud w filename outfile overridesfile = (Inl ModelLoadFailure, w)"
    by (simp add: generate_def split: option.splits file_content.splits)
next
  assume "files w filename = Some (ModelFile m) \<and> outfile \<in> unwritable w"
  then show "generate ud w filename outfile overridesfile = (Inl OSError, w)"
    by (simp add: generate_def)
next
  assume a: "files w filename = Some (ModelFile m) \<and> outfile \<notin> unwritable w"
  obtain r out where g: "generate_body ud m = (r, out)" by force
  have m: "m = \<lparr>m_heap = m_heap m, m_classes = m_classes m\<rparr>" by simp
  from generate_body_header [of ud "m_heap m" "m_classes m" r out] g m
  obtain fl where f: "out = WHeader # fl" "r \<noteq> Inr () \<longrightarrow> fl = []" by auto
  from a g f(1) have "generate ud w filename outfile overridesfile
                   = (r, w\<lparr>files := (files w)(outfile \<mapsto> TextFile (WHeader # fl))\<rparr>)"
    by (simp add: generate_def)
  with f(2) show "\<exists>r fl. generate ud w filename outfile overridesfile
                   = (r, w\<lparr>files := (files w)(outfile \<mapsto> TextFile (WHeader # fl))\<rparr>)
              \<and> (r \<noteq> Inr () \<longrightarrow> fl = [])"
    by blast
qed

text \<open>
  The amended claim C4 at a path without a file and at the model whose class has the empty
  name.
\<close>

theorem generate_writes_in_place_witness:
  "files unnamed_world ''missing.gaphor'' = None
   \<and> generate [] unnamed_world ''missing.gaphor'' ''out.py'' None
       = (Inl ModelLoadFailure, unnamed_world)
   \<and> files unnamed_world ''model.gaphor''
       = Some (ModelFile \<lparr>m_heap = (\<lambda>_. no_class) (0 := plain_class [] []), m_classes = [0]\<rparr>)
   \<and> ''out.py'' \<notin> unwritable unnamed_world
   \<and> fst (generate [] unnamed_world ''model.gaphor'' ''out.py'' None) \<noteq> Inr ()
   \<and> generate [] unnamed_world ''model.gaphor'' ''out.py'' None
       = (Inl IndexError,
          unnamed_world\<lparr>files := (files unnamed_world)(''out.py'' \<mapsto> TextFile [WHeader])\<rparr>)"
proof -
  have h1: "files unnamed_world ''missing.gaphor'' = None"
    by (simp add: unnamed_world_def)
  then have h1': "\<forall>m. files unnamed_world ''missing.gaphor'' \<noteq> Some (ModelFile m)"
    by simp
  have h2: "files unnamed_world ''model.gaphor''
       = Some (ModelFile \<lparr>m_heap = (\<lambda>_. no_class) (0 := plain_class [] []), m_classes = [0]\<rparr>)
     \<and> ''out.py'' \<notin> unwritable unnamed_world"
    by (simp add: unnamed_world_def)
  have e: "fst (generate [] unnamed_world ''model.gaphor'' ''out.py'' None) = Inl IndexError"
    by code_simp
  from generate_writes_in_place
         [of unnamed_world "''missing.gaphor''" "[]" "''out.py''" None] h1'
  have 1: "generate [] unnamed_world ''missing.gaphor'' ''out.py'' None
       = (Inl ModelLoadFailure, unnamed_world)"
    by blast
  from generate_writes_in_place
         [of unnamed_world "''model.gaphor''" "[]" "''out.py''" None
             "\<lparr>m_heap = (\<lambda>_. no_class) (0 := plain_class [] []), m_classes = [0]\<rparr>"] h2
  obtain r fl where 2: "generate [] unnamed_world ''model.gaphor'' ''out.py'' None
                   = (r, unnamed_world\<lparr>files := (files unnamed_world)
                                         (''out.py'' \<mapsto> TextFile (WHeader # fl))\<rparr>)"
     and 3: "r \<noteq> Inr () \<longrightarrow> fl = []"
    by blast
  from 2 e have "r = Inl IndexError" by simp
  with 2 3 have "generate [] unnamed_world ''model.gaphor'' ''out.py'' None
       = (Inl IndexError,
          unnamed_world\<lparr>files := (files unnamed_world)(''out.py'' \<mapsto> TextFile [WHeader])\<rparr>)"
    by simp
  with h1 h2 e 1 show ?thesis by simp
qed

end
